theory Spec2Isabelle
  imports Main "HOL-Library.Char_ord" "HOL-Library.List_Lexorder" "HOL-Library.Sublist"
    "HOL-Library.Multiset"
begin

section \<open>Python strings\<close>

text \<open>
  A Python \<^verbatim>\<open>str\<close> is modelled as a \<^typ>\<open>string\<close>, one \<^typ>\<open>char\<close> per code point
  (code points below 256). The order on strings is the one Python's \<^verbatim>\<open>sorted\<close> uses:
  lexicographic by code point, a proper prefix before its extensions.
\<close>

definition isspace :: "char \<Rightarrow> bool" where
  \<comment> \<open>\<^verbatim>\<open>str.isspace\<close> on one code point below 256\<close>
  "isspace c =
     (let n = (of_char c :: nat)
      in (9 \<le> n \<and> n \<le> 13) \<or> (28 \<le> n \<and> n \<le> 32) \<or> n = 133 \<or> n = 160)"

definition lstrip :: "string \<Rightarrow> string" where
  "lstrip s = dropWhile isspace s"

definition rstrip :: "string \<Rightarrow> string" where
  "rstrip s = rev (dropWhile isspace (rev s))"

definition strip :: "string \<Rightarrow> string" where
  \<comment> \<open>\<^verbatim>\<open>x.strip()\<close>: whitespace removed at both ends\<close>
  "strip s = rstrip (lstrip s)"

definition startswith :: "string \<Rightarrow> string \<Rightarrow> bool" where
  "startswith s pre = (take (length pre) s = pre)"

definition endswith :: "string \<Rightarrow> string \<Rightarrow> bool" where
  "endswith s suf = (length suf \<le> length s \<and> drop (length s - length suf) s = suf)"

fun contains :: "string \<Rightarrow> string \<Rightarrow> bool" where
  \<comment> \<open>\<^verbatim>\<open>sub in s\<close>\<close>
  "contains [] sub = (sub = [])"
| "contains (c # cs) sub = (startswith (c # cs) sub \<or> contains cs sub)"

fun readlines :: "string \<Rightarrow> string list" where
  \<comment> \<open>\<^verbatim>\<open>f.readlines()\<close> on the text of a file: every line keeps its newline\<close>
  "readlines [] = []"
| "readlines (c # cs) =
     (if c = CHR 0x0A then [c] # readlines cs
      else (case readlines cs of [] \<Rightarrow> [[c]] | l # ls \<Rightarrow> (c # l) # ls))"

definition write_lines :: "string list \<Rightarrow> string" where
  \<comment> \<open>what a loop of \<^verbatim>\<open>f.write("%s\n" % fn)\<close> leaves in a file opened empty\<close>
  "write_lines fns = concat (map (\<lambda>fn. fn @ [CHR 0x0A]) fns)"

section \<open>The change detector: scripts/parse\_commit.py\<close>

text \<open>
  The files the script touches, by name: \<^verbatim>\<open>None\<close> is a file that does not exist,
  \<^verbatim>\<open>Some txt\<close> a file whose text is \<^verbatim>\<open>txt\<close>.
\<close>

type_synonym fs = "string \<rightharpoonup> string"

datatype os_error = FileNotFoundError string

definition changed_notebooks :: "string list \<Rightarrow> string list" where
  \<comment> \<open>lines 9 and 11: the two list comprehensions over the lines read\<close>
  "changed_notebooks content =
     (let content = map strip content
      in filter (\<lambda>line. endswith line ''.ipynb'') content)"

definition parse_commit :: "fs \<Rightarrow> os_error + fs" where
  \<comment> \<open>the whole script; \<^verbatim>\<open>open(..., "w")\<close> comes before the test on the length\<close>
  "parse_commit files =
     (case files ''changed_files.txt'' of
        None \<Rightarrow> Inl (FileNotFoundError ''changed_files.txt'')
      | Some txt \<Rightarrow>
          (let content = readlines txt;
               changed = changed_notebooks content;
               f = [];
               f = (if length changed > 0 then f @ write_lines changed else f)
           in Inr (files(''changed_notebooks.txt'' \<mapsto> f))))"

section \<open>Paths: the functions of \<^verbatim>\<open>os.path\<close> the rebuilder calls\<close>

text \<open>
  The script needs \<^verbatim>\<open>signal.alarm\<close>, so it runs on POSIX and \<^verbatim>\<open>os.path\<close> is
  \<^verbatim>\<open>posixpath\<close>, whose functions are written out here.
\<close>

fun split :: "char \<Rightarrow> string \<Rightarrow> string list" where
  \<comment> \<open>\<^verbatim>\<open>path.split(sep)\<close>: never empty, one more component than separators\<close>
  "split sep [] = [[]]"
| "split sep (c # cs) =
     (if c = sep then [] # split sep cs
      else (case split sep cs of [] \<Rightarrow> [[c]] | x # xs \<Rightarrow> (c # x) # xs))"

fun sep_join :: "string \<Rightarrow> string list \<Rightarrow> string" where
  \<comment> \<open>\<^verbatim>\<open>sep.join(comps)\<close>\<close>
  "sep_join sep [] = []"
| "sep_join sep [x] = x"
| "sep_join sep (x # y # ys) = x @ sep @ sep_join sep (y # ys)"

definition norm_step :: "nat \<Rightarrow> string list \<Rightarrow> string \<Rightarrow> string list" where
  \<comment> \<open>the body of the loop over the components in \<^verbatim>\<open>normpath\<close>\<close>
  "norm_step initial_slashes new_comps component =
     (if component = [] \<or> component = ''.'' then new_comps
      else if component \<noteq> ''..'' \<or> (initial_slashes = 0 \<and> new_comps = [])
              \<or> (new_comps \<noteq> [] \<and> last new_comps = ''..'')
        then new_comps @ [component]
      else if new_comps \<noteq> [] then butlast new_comps
      else new_comps)"

definition normpath :: "string \<Rightarrow> string" where
  "normpath path =
     (if path = [] then ''.''
      else
        (let initial_slashes =
               (if startswith path ''/''
                then (if startswith path ''//'' \<and> \<not> startswith path ''///'' then 2 else 1)
                else (0 :: nat));
             comps = split CHR ''/'' path;
             new_comps = foldl (norm_step initial_slashes) [] comps;
             path = sep_join ''/'' new_comps;
             path = replicate initial_slashes CHR ''/'' @ path
         in if path = [] then ''.'' else path))"

fun rfind :: "string \<Rightarrow> char \<Rightarrow> int" where
  \<comment> \<open>\<^verbatim>\<open>p.rfind(sep)\<close>: the highest index of the character, -1 when there is none\<close>
  "rfind [] sep = - 1"
| "rfind (c # cs) sep =
     (let r = rfind cs sep
      in if 0 \<le> r then r + 1 else if c = sep then 0 else - 1)"

definition basename :: "string \<Rightarrow> string" where
  \<comment> \<open>\<^verbatim>\<open>i = p.rfind(sep) + 1; return p[i:]\<close>\<close>
  "basename p = (let i = rfind p CHR ''/'' + 1 in drop (nat i) p)"

definition join :: "string \<Rightarrow> string \<Rightarrow> string" where
  \<comment> \<open>\<^verbatim>\<open>os.path.join(a, b)\<close> with one component after the first\<close>
  "join a b =
     (if startswith b ''/'' then b
      else if a = [] \<or> endswith a ''/'' then a @ b
      else a @ ''/'' @ b)"

section \<open>Notebooks and the world around the rebuilder\<close>

text \<open>
  A notebook document as \<^verbatim>\<open>nbformat\<close> reads it: attribute access on a node raises
  \<^verbatim>\<open>AttributeError\<close> when the key is missing, so every field the script reads is
  optional. \<^verbatim>\<open>cells\<close> stands for the rest of the document.
\<close>

record kernelspec =
  name :: "string option"
  display_name :: "string option"
  language :: "string option"

record language_info =
  version :: "string option"

record metadata_node =
  kernelspec :: "kernelspec option"
  language_info :: "language_info option"

record notebook =
  metadata :: metadata_node
  cells :: "string list"

text \<open>Every exception of the model is a subclass of \<^verbatim>\<open>Exception\<close>.\<close>

datatype exn =
    Exception string
  | AttributeError string
  | IOError string
  | PapermillExecutionError string

text \<open>
  What one run of the execution engine does with a staged document: how long it takes
  (in seconds), and whether it returns the executed document or raises. The engine is
  outside the repository: it is a parameter, asked with the position of the notebook in
  the batch, so that two occurrences of one path may end differently.
\<close>

record run =
  duration :: nat
  outcome :: "exn + notebook"

type_synonym engine = "nat \<Rightarrow> notebook \<Rightarrow> run"

text \<open>The calls and messages whose order the properties speak about.\<close>

datatype event =
    Alarm nat
  | Building string
  | Makedirs string
  | Execute string
  | Success string
  | Traceback exn
  | Rmtree string

text \<open>
  The world: whether \<^verbatim>\<open>./tmp\<close> is a directory, the notebook documents by the path they
  are read and written under, the pending alarm (seconds left, \<^verbatim>\<open>None\<close> when no alarm
  is pending), the two log files, and the events so far. \<^verbatim>\<open>./tmp\<close> is either missing
  or a directory, and the working directory can be written. Time passes only while the
  engine runs, in whole seconds.
\<close>

record world =
  tmp_isdir :: bool
  notebooks :: "string \<rightharpoonup> notebook"
  alarm :: "nat option"
  nb_errors :: "string option"
  ipynb_files_built :: "string option"
  trace :: "event list"

definition emit :: "event \<Rightarrow> world \<Rightarrow> world" where
  "emit e w = w\<lparr>trace := trace w @ [e]\<rparr>"

section \<open>The batch rebuilder: scripts/run\_notebooks.py\<close>

definition generate_paths :: "string \<Rightarrow> world \<Rightarrow> string \<times> world" where
  \<comment> \<open>returns \<^verbatim>\<open>paths['path_save_tmp_file']\<close>, the one entry of the dict\<close>
  "generate_paths notebook_path w =
     (let notebook_path = normpath notebook_path;
          w = (if \<not> tmp_isdir w
               then emit (Makedirs (join ''.'' ''tmp'')) (w\<lparr>tmp_isdir := True\<rparr>)
               else w);
          path_ipynb_tmp_file = join ''tmp'' (basename notebook_path)
      in (path_ipynb_tmp_file, w))"

definition nf_read :: "string \<Rightarrow> world \<Rightarrow> exn + notebook" where
  \<comment> \<open>\<^verbatim>\<open>nf.read(notebook_path, nf.NO_CONVERT)\<close>\<close>
  "nf_read notebook_path w =
     (case notebooks w notebook_path of
        None \<Rightarrow> Inl (IOError notebook_path)
      | Some nb \<Rightarrow> Inr nb)"

definition nf_write :: "notebook \<Rightarrow> string \<Rightarrow> world \<Rightarrow> world" where
  \<comment> \<open>\<^verbatim>\<open>nf.write(nb, notebook)\<close>\<close>
  "nf_write nb notebook w = w\<lparr>notebooks := (notebooks w)(notebook \<mapsto> nb)\<rparr>"

definition set_kernel :: "string \<Rightarrow> string \<Rightarrow> notebook \<Rightarrow> notebook" where
  \<comment> \<open>the two assignments \<^verbatim>\<open>kernelspec.name = n; kernelspec.display_name = d\<close>\<close>
  "set_kernel n d nb =
     nb\<lparr>metadata := (metadata nb)\<lparr>kernelspec :=
       map_option (\<lambda>ks. ks\<lparr>name := Some n, display_name := Some d\<rparr>)
         (kernelspec (metadata nb))\<rparr>\<rparr>"

definition normalize_kernel_name :: "notebook \<Rightarrow> string \<Rightarrow> world \<Rightarrow> exn + world" where
  "normalize_kernel_name nb notebook w =
     (case kernelspec (metadata nb) of
        None \<Rightarrow> Inl (AttributeError ''kernelspec'')
      | Some ks \<Rightarrow>
         (case display_name ks of
            None \<Rightarrow> Inl (AttributeError ''display_name'')
          | Some dn \<Rightarrow>
             if contains dn ''[conda env:'' then
               (case language ks of
                  None \<Rightarrow> Inl (AttributeError ''language'')
                | Some lang \<Rightarrow>
                   if lang = ''python'' then
                     (case language_info (metadata nb) of
                        None \<Rightarrow> Inl (AttributeError ''language_info'')
                      | Some li \<Rightarrow>
                         (case version li of
                            None \<Rightarrow> Inl (AttributeError ''version'')
                          | Some v \<Rightarrow>
                             if startswith v ''3.''
                             then Inr (nf_write (set_kernel ''python3'' ''Python 3'' nb) notebook w)
                             else Inr (nf_write (set_kernel ''python2'' ''Python 2'' nb) notebook w)))
                   else Inr (nf_write nb notebook w))
             else Inr (nf_write nb notebook w)))"

definition handler :: exn where
  \<comment> \<open>what the handler of \<^verbatim>\<open>SIGALRM\<close> raises\<close>
  "handler = Exception ''Notebook build timed out.''"

definition execute_notebook :: "engine \<Rightarrow> nat \<Rightarrow> string \<Rightarrow> string \<Rightarrow> world \<Rightarrow> exn option \<times> world" where
  \<comment> \<open>\<^verbatim>\<open>pm.execute_notebook(input_path, output_path)\<close>, under the pending alarm: an alarm
      that expires before the engine is done raises inside the call and is spent\<close>
  "execute_notebook eng total_num input_path output_path w =
     (let w = emit (Execute input_path) w
      in case notebooks w input_path of
           None \<Rightarrow> (Some (IOError input_path), w)
         | Some nb \<Rightarrow>
            (let r = eng total_num nb
             in case alarm w of
                  Some t \<Rightarrow>
                    if t \<le> duration r then (Some handler, w\<lparr>alarm := None\<rparr>)
                    else (case outcome r of
                            Inl ex \<Rightarrow> (Some ex, w\<lparr>alarm := Some (t - duration r)\<rparr>)
                          | Inr nb' \<Rightarrow>
                              (None, nf_write nb' output_path (w\<lparr>alarm := Some (t - duration r)\<rparr>)))
                | None \<Rightarrow>
                    (case outcome r of
                       Inl ex \<Rightarrow> (Some ex, w)
                     | Inr nb' \<Rightarrow> (None, nf_write nb' output_path w))))"

definition rebuild_notebook :: "engine \<Rightarrow> nat \<Rightarrow> string \<Rightarrow> world \<Rightarrow> exn option \<times> world" where
  \<comment> \<open>\<^verbatim>\<open>None\<close>: the call returned; \<^verbatim>\<open>Some ex\<close>: it raised \<^verbatim>\<open>ex\<close>\<close>
  "rebuild_notebook eng total_num notebook_path w =
     (case generate_paths notebook_path w of
        (ntbk_tmp_path, w) \<Rightarrow>
          (case nf_read notebook_path w of
             Inl ex \<Rightarrow> (Some ex, w)
           | Inr ntbk_json \<Rightarrow>
               (case normalize_kernel_name ntbk_json ntbk_tmp_path w of
                  Inl ex \<Rightarrow> (Some ex, w)
                | Inr w \<Rightarrow> execute_notebook eng total_num ntbk_tmp_path ntbk_tmp_path w)))"

text \<open>The variables of the loop over the notebooks.\<close>

record vars =
  problem_notebooks :: "string list"
  failed_count :: nat
  total_notebooks_built :: nat

fun build_loop :: "engine \<Rightarrow> nat \<Rightarrow> string list \<Rightarrow> vars \<times> world \<Rightarrow> vars \<times> world" where
  \<comment> \<open>\<^verbatim>\<open>for total_num, notebook in enumerate(notebooks_to_rebuild)\<close> with its
      \<^verbatim>\<open>try\<close> and \<^verbatim>\<open>except Exception\<close>\<close>
  "build_loop eng total_num [] (v, w) = (v, w)"
| "build_loop eng total_num (notebook # rest) (v, w) =
     (case rebuild_notebook eng total_num notebook (emit (Building notebook) w) of
        (None, w) \<Rightarrow>
          build_loop eng (Suc total_num) rest
            (v\<lparr>total_notebooks_built := total_notebooks_built v + 1\<rparr>,
             emit (Success notebook) w)
      | (Some ex, w) \<Rightarrow>
          build_loop eng (Suc total_num) rest
            (v\<lparr>problem_notebooks := problem_notebooks v @ [notebook],
               failed_count := failed_count v + 1\<rparr>,
             emit (Traceback ex) w))"

definition rmtree :: "string \<Rightarrow> world \<Rightarrow> world" where
  \<comment> \<open>\<^verbatim>\<open>sh.rmtree(tmp_path)\<close>: the directory goes, and the staged documents with it\<close>
  "rmtree tmp_path w =
     emit (Rmtree tmp_path)
       (w\<lparr>tmp_isdir := False,
          notebooks := (\<lambda>p. if startswith p ''tmp/'' then None else notebooks w p)\<rparr>)"

definition append_to :: "string option \<Rightarrow> string list \<Rightarrow> string option" where
  \<comment> \<open>a file opened with mode \<^verbatim>\<open>'a'\<close> (created when missing), one line written per entry\<close>
  "append_to file nbs =
     Some ((case file of None \<Rightarrow> [] | Some txt \<Rightarrow> txt) @ write_lines nbs)"

definition overwrite :: "string option \<Rightarrow> string list \<Rightarrow> string option" where
  \<comment> \<open>a file opened with mode \<^verbatim>\<open>'w'\<close> (emptied), one line written per entry\<close>
  "overwrite file nbs = Some (write_lines nbs)"

text \<open>What is left when the script ends: the variables of the loop and the two lists.\<close>

record report = vars +
  notebooks_to_rebuild :: "string list"
  successful_notebooks :: "string list"

datatype exit = SystemExit string

definition run_notebooks :: "engine \<Rightarrow> string list \<Rightarrow> world \<Rightarrow> (exit + report) \<times> world" where
  \<comment> \<open>the script from line 137 on; \<^verbatim>\<open>argv\<close> is \<^verbatim>\<open>sys.argv\<close>, the script's name first\<close>
  "run_notebooks eng argv w =
     (if length argv > 1 then
        (let notebooks_to_rebuild = drop 1 argv;
             notebooks_to_rebuild = sort notebooks_to_rebuild;
             w = emit (Alarm 570) (w\<lparr>alarm := Some 570\<rparr>);
             (v, w) = build_loop eng 0 notebooks_to_rebuild
                        (\<lparr>problem_notebooks = [], failed_count = 0, total_notebooks_built = 0\<rparr>, w);
             tmp_path = join ''.'' ''tmp'';
             w = (if tmp_isdir w then rmtree tmp_path w else w);
             w = w\<lparr>nb_errors := append_to (nb_errors w) (problem_notebooks v)\<rparr>;
             successful_notebooks =
               filter (\<lambda>x. x \<notin> set (problem_notebooks v)) notebooks_to_rebuild;
             w = w\<lparr>ipynb_files_built := overwrite (ipynb_files_built w) successful_notebooks\<rparr>
         in (Inr \<lparr>problem_notebooks = problem_notebooks v,
                  failed_count = failed_count v,
                  total_notebooks_built = total_notebooks_built v,
                  notebooks_to_rebuild = notebooks_to_rebuild,
                  successful_notebooks = successful_notebooks\<rparr>, w))
      else (Inl (SystemExit ''No notebooks to rebuild.''), w))"

section \<open>Reading a run\<close>

text \<open>
  What each call of \<^verbatim>\<open>rebuild_notebook\<close> in the loop did, in the order of the loop:
  \<^verbatim>\<open>None\<close> where it returned, \<^verbatim>\<open>Some ex\<close> where it raised. The recursion is the one of
  \<^const>\<open>build_loop\<close>.
\<close>

fun outcomes :: "engine \<Rightarrow> nat \<Rightarrow> string list \<Rightarrow> world \<Rightarrow> exn option list" where
  "outcomes eng total_num [] w = []"
| "outcomes eng total_num (notebook # rest) w =
     (case rebuild_notebook eng total_num notebook (emit (Building notebook) w) of
        (None, w) \<Rightarrow> None # outcomes eng (Suc total_num) rest (emit (Success notebook) w)
      | (Some ex, w) \<Rightarrow> Some ex # outcomes eng (Suc total_num) rest (emit (Traceback ex) w))"

fun attempted :: "event list \<Rightarrow> string list" where
  \<comment> \<open>the notebooks whose rebuild was started, in the order of the events\<close>
  "attempted [] = []"
| "attempted (Building p # es) = p # attempted es"
| "attempted (e # es) = attempted es"

fun alarms :: "event list \<Rightarrow> nat list" where
  \<comment> \<open>the calls of \<^verbatim>\<open>signal.alarm\<close>, in the order of the events\<close>
  "alarms [] = []"
| "alarms (Alarm t # es) = t # alarms es"
| "alarms (e # es) = alarms es"

fun executed :: "event list \<Rightarrow> string list" where
  \<comment> \<open>the staged paths the engine was called on\<close>
  "executed [] = []"
| "executed (Execute p # es) = p # executed es"
| "executed (e # es) = executed es"

fun made :: "event list \<Rightarrow> string list" where
  \<comment> \<open>the directories created\<close>
  "made [] = []"
| "made (Makedirs p # es) = p # made es"
| "made (e # es) = made es"

definition raised :: "string list \<Rightarrow> exn option list \<Rightarrow> string list" where
  \<comment> \<open>the notebooks whose rebuild raised, in the order of the loop\<close>
  "raised ps os = map fst (filter (\<lambda>(p, ex). ex \<noteq> None) (zip ps os))"

definition start :: "world \<Rightarrow> vars \<times> world" where
  \<comment> \<open>the state in which the loop is entered: the alarm armed, nothing counted yet\<close>
  "start w = (\<lparr>problem_notebooks = [], failed_count = 0, total_notebooks_built = 0\<rparr>,
              emit (Alarm 570) (w\<lparr>alarm := Some 570\<rparr>))"

definition notebook_suffix :: "string \<Rightarrow> bool" where
  \<comment> \<open>the path ends with the notebook suffix, said without \<^const>\<open>endswith\<close>\<close>
  "notebook_suffix p = (\<exists>pre. p = pre @ ''.ipynb'')"

section \<open>Example inputs\<close>

text \<open>Concrete files, notebooks, worlds and engines, for the runs the properties are tried on.\<close>

definition changed_files :: "string list" where
  "changed_files =
     [''readme.md'' @ [CHR 0x0A], '' lesson1.ipynb'' @ [CHR 0x0A],
      ''fig.png'' @ [CHR 0x0A], ''lesson2.ipynb'']"

definition fs_no_notebooks :: fs where
  "fs_no_notebooks = Map.empty(''changed_files.txt'' \<mapsto> ''readme.md'' @ [CHR 0x0A] @ ''fig.png'')"

definition nb_conda :: notebook where
  "nb_conda =
     \<lparr>metadata =
        \<lparr>kernelspec = Some \<lparr>name = Some ''conda-env-earth-py'',
                             display_name = Some ''Python [conda env:earth]'',
                             language = Some ''python''\<rparr>,
         language_info = Some \<lparr>version = Some ''3.7.6''\<rparr>\<rparr>,
      cells = [''import earthpy'']\<rparr>"

definition world0 :: world where
  "world0 =
     \<lparr>tmp_isdir = False,
      notebooks = [''a.ipynb'' \<mapsto> nb_conda, ''b.ipynb'' \<mapsto> nb_conda],
      alarm = None, nb_errors = Some (''old.ipynb'' @ [CHR 0x0A]),
      ipynb_files_built = Some (''old.ipynb'' @ [CHR 0x0A]), trace = []\<rparr>"

definition engine_first_fails :: engine where
  "engine_first_fails total_num nb =
     \<lparr>duration = 10,
      outcome = (if total_num = 0 then Inl (PapermillExecutionError ''kernel died'') else Inr nb)\<rparr>"

definition engine_slow :: engine where
  "engine_slow total_num nb = \<lparr>duration = 600, outcome = Inr nb\<rparr>"

definition world_armed :: world where
  "world_armed = world0\<lparr>alarm := Some 570\<rparr>"

section \<open>Facts about strings and paths\<close>

lemma endswith_iff: "endswith s suf \<longleftrightarrow> (\<exists>pre. s = pre @ suf)"
  unfolding endswith_def
  by (metis append_eq_conv_conj append_take_drop_id diff_add_inverse2 length_append le_add2 length_drop)

lemma rfind_none: "sep \<notin> set p \<Longrightarrow> rfind p sep = - 1"
  by (induction p) (auto simp: Let_def)

lemma rfind_append: "sep \<notin> set c \<Longrightarrow> rfind (a @ sep # c) sep = int (length a)"
  by (induction a) (auto simp: Let_def rfind_none)

lemma basename_append: 
  assumes "CHR ''/'' \<notin> set c" shows "basename (a @ CHR ''/'' # c) = c"
proof -
  have "nat (int (length a) + 1) = Suc (length a)" by simp
  then show ?thesis using assms by (simp add: basename_def rfind_append Let_def)
qed

lemma basename_plain: "CHR ''/'' \<notin> set c \<Longrightarrow> basename c = c"
  by (simp add: basename_def rfind_none)

lemma path_cases:
  "(CHR ''/'' \<notin> set p \<and> basename p = p) \<or> (\<exists>a. p = a @ CHR ''/'' # basename p \<and> CHR ''/'' \<notin> set (basename p))"
proof (cases "CHR ''/'' \<in> set p")
  case False
  then show ?thesis by (simp add: basename_plain)
next
  case True
  then obtain a c where "p = a @ CHR ''/'' # c" "CHR ''/'' \<notin> set c"
    by (meson split_list_last)
  then show ?thesis by (auto simp: basename_append)
qed

lemma split_plain: "sep \<notin> set c \<Longrightarrow> split sep c = [c]"
  by (induction c) auto

lemma split_nonempty: "split sep p \<noteq> []"
  by (induction p) (auto split: list.splits)

lemma split_append: "sep \<notin> set c \<Longrightarrow> split sep (a @ sep # c) = split sep a @ [c]"
  by (induction a) (auto simp: split_plain split_nonempty split: list.splits)

lemma split_last: "\<exists>cs. split CHR ''/'' p = cs @ [basename p]"
  using path_cases[of p] by (metis append_Nil split_append split_plain)

lemma sep_join_snoc: "sep_join sep (xs @ [b]) = (if xs = [] then b else sep_join sep xs @ sep @ b)"
  by (induction sep xs rule: sep_join.induct) auto

lemma norm_step_proper:
  "b \<noteq> [] \<Longrightarrow> b \<noteq> ''.'' \<Longrightarrow> b \<noteq> ''..'' \<Longrightarrow> norm_step k acc b = acc @ [b]"
  by (simp add: norm_step_def)

lemma basename_normpath:
  assumes "basename p \<noteq> []" "basename p \<noteq> ''.''" "basename p \<noteq> ''..''"
  shows "basename (normpath p) = basename p"
proof -
  let ?b = "basename p"
  from assms have pn: "p \<noteq> []" by (auto simp: basename_def)
  have nb: "CHR ''/'' \<notin> set ?b" using path_cases[of p] by auto
  obtain cs where cs: "split CHR ''/'' p = cs @ [?b]" using split_last by blast
  define k :: nat where "k = (if startswith p ''/'' then (if startswith p ''//'' \<and> \<not> startswith p ''///'' then 2 else 1) else 0)"
  define ys where "ys = foldl (norm_step k) [] cs"
  have f: "foldl (norm_step k) [] (split CHR ''/'' p) = ys @ [?b]"
    by (simp add: cs ys_def norm_step_proper assms)
  define pre where "pre = replicate k CHR ''/'' @ (if ys = [] then [] else sep_join ''/'' ys @ ''/'')"
  have np: "normpath p = pre @ ?b"
    using pn assms(1) by (simp add: normpath_def Let_def k_def[symmetric] f sep_join_snoc pre_def)
  have "pre = [] \<or> (\<exists>a. pre = a @ ''/'')"
  proof (cases "ys = []")
    case False
    then have "pre = (replicate k CHR ''/'' @ sep_join ''/'' ys) @ ''/''" by (simp add: pre_def)
    then show ?thesis by blast
  next
    case True
    show ?thesis
    proof (cases k)
      case 0
      with True show ?thesis by (simp add: pre_def)
    next
      case (Suc n)
      have "replicate (Suc n) CHR ''/'' = replicate n CHR ''/'' @ ''/''"
        by (simp add: replicate_append_same)
      with True Suc show ?thesis by (simp add: pre_def del: replicate_Suc) 
    qed
  qed
  then show ?thesis
    using np nb by (auto simp: basename_plain basename_append)
qed

lemma staged_path:
  assumes "basename p \<noteq> []" "basename p \<noteq> ''.''" "basename p \<noteq> ''..''"
  shows "fst (generate_paths p w) = ''tmp/'' @ basename p"
proof -
  have "CHR ''/'' \<notin> set (basename p)" using path_cases[of p] by auto
  then have "\<not> startswith (basename p) ''/''" 
    by (cases "basename p") (auto simp: startswith_def)
  then show ?thesis
    using assms by (simp add: generate_paths_def Let_def basename_normpath join_def endswith_def)
qed

section \<open>Facts about the loop\<close>

lemma attempted_append: "attempted (xs @ ys) = attempted xs @ attempted ys"
  by (induction xs rule: attempted.induct) auto
lemma alarms_append: "alarms (xs @ ys) = alarms xs @ alarms ys"
  by (induction xs rule: alarms.induct) auto
lemma executed_append: "executed (xs @ ys) = executed xs @ executed ys"
  by (induction xs rule: executed.induct) auto
lemma made_append: "made (xs @ ys) = made xs @ made ys"
  by (induction xs rule: made.induct) auto

lemma generate_paths_trace:
  "\<exists>es. trace (snd (generate_paths p w)) = trace w @ es \<and> attempted es = [] \<and> alarms es = []"
  by (simp add: generate_paths_def emit_def Let_def)

lemma normalize_trace:
  "normalize_kernel_name nb p w = Inr w' \<Longrightarrow> trace w' = trace w \<and> alarm w' = alarm w \<and> nb_errors w' = nb_errors w \<and> ipynb_files_built w' = ipynb_files_built w \<and> tmp_isdir w' = tmp_isdir w"
  by (auto simp: normalize_kernel_name_def nf_write_def split: option.splits if_splits)

lemma execute_trace:
  "\<exists>es. trace (snd (execute_notebook eng i p q w)) = trace w @ es \<and> attempted es = [] \<and> alarms es = []"
  by (auto simp: execute_notebook_def emit_def Let_def nf_write_def split: option.splits sum.splits)

lemma rebuild_trace:
  "\<exists>es. trace (snd (rebuild_notebook eng i p w)) = trace w @ es \<and> attempted es = [] \<and> alarms es = []"
proof -
  obtain q w1 where g: "generate_paths p w = (q, w1)" by (cases "generate_paths p w")
  from generate_paths_trace[of p w] g obtain es1 where
    e1: "trace w1 = trace w @ es1" "attempted es1 = []" "alarms es1 = []" by auto
  show ?thesis
  proof (cases "nf_read p w1")
    case (Inl ex)
    with g e1 show ?thesis by (simp add: rebuild_notebook_def)
  next
    case (Inr nb)
    show ?thesis
    proof (cases "normalize_kernel_name nb q w1")
      case (Inl ex)
      with g e1 Inr show ?thesis by (simp add: rebuild_notebook_def)
    next
      case (Inr w2)
      from normalize_trace[OF Inr] have t2: "trace w2 = trace w1" by simp
      from execute_trace[of eng i q q w2] obtain es2 where
        e2: "trace (snd (execute_notebook eng i q q w2)) = trace w2 @ es2" "attempted es2 = []" "alarms es2 = []"
        by auto
      have "trace (snd (rebuild_notebook eng i p w)) = trace w @ (es1 @ es2)"
        using g \<open>nf_read p w1 = Inr nb\<close> Inr e1 e2 t2 by (simp add: rebuild_notebook_def)
      moreover have "attempted (es1 @ es2) = []" "alarms (es1 @ es2) = []"
        using e1 e2 by (simp_all add: attempted_append alarms_append)
      ultimately show ?thesis by blast
    qed
  qed
qed

lemma build_loop_trace:
  "\<exists>es. trace (snd (build_loop eng i ps (v, w))) = trace w @ es \<and> attempted es = ps \<and> alarms es = []"
proof (induction ps arbitrary: i v w)
  case Nil
  then show ?case by simp
next
  case (Cons p ps)
  obtain ex w1 where r: "rebuild_notebook eng i p (emit (Building p) w) = (ex, w1)"
    by (cases "rebuild_notebook eng i p (emit (Building p) w)")
  from rebuild_trace[of eng i p "emit (Building p) w"] r obtain es1 where
    e1: "trace w1 = trace w @ Building p # es1" "attempted es1 = []" "alarms es1 = []"
    by (auto simp: emit_def)
  show ?case
  proof (cases ex)
    case None
    from Cons.IH[of "Suc i" "v\<lparr>total_notebooks_built := total_notebooks_built v + 1\<rparr>" "emit (Success p) w1"]
    obtain es2 where e2: "trace (snd (build_loop eng (Suc i) ps (v\<lparr>total_notebooks_built := total_notebooks_built v + 1\<rparr>, emit (Success p) w1))) = trace (emit (Success p) w1) @ es2"
      "attempted es2 = ps" "alarms es2 = []" by blast
    have "trace (snd (build_loop eng i (p # ps) (v, w))) = trace w @ (Building p # es1 @ Success p # es2)"
      using r None e1 e2 by (simp add: emit_def)
    moreover have "attempted (Building p # es1 @ Success p # es2) = p # ps" "alarms (Building p # es1 @ Success p # es2) = []"
      using e1 e2 by (simp_all add: attempted_append alarms_append)
    ultimately show ?thesis by blast
  next
    case (Some e)
    let ?v = "v\<lparr>problem_notebooks := problem_notebooks v @ [p], failed_count := failed_count v + 1\<rparr>"
    from Cons.IH[of "Suc i" ?v "emit (Traceback e) w1"]
    obtain es2 where e2: "trace (snd (build_loop eng (Suc i) ps (?v, emit (Traceback e) w1))) = trace (emit (Traceback e) w1) @ es2"
      "attempted es2 = ps" "alarms es2 = []" by blast
    have "trace (snd (build_loop eng i (p # ps) (v, w))) = trace w @ (Building p # es1 @ Traceback e # es2)"
      using r Some e1 e2 by (simp add: emit_def)
    moreover have "attempted (Building p # es1 @ Traceback e # es2) = p # ps" "alarms (Building p # es1 @ Traceback e # es2) = []"
      using e1 e2 by (simp_all add: attempted_append alarms_append)
    ultimately show ?thesis by blast
  qed
qed

lemma length_outcomes: "length (outcomes eng i ps w) = length ps"
  by (induction ps arbitrary: i w) (auto split: prod.splits option.splits)

lemma build_loop_problem:
  "problem_notebooks (fst (build_loop eng i ps (v, w))) = problem_notebooks v @ raised ps (outcomes eng i ps w)"
  by (induction ps arbitrary: i v w) (auto simp: raised_def split: prod.splits option.splits)

lemma build_loop_counts:
  "failed_count (fst (build_loop eng i ps (v, w))) = failed_count v + length (raised ps (outcomes eng i ps w))"
  "total_notebooks_built (fst (build_loop eng i ps (v, w))) + length (raised ps (outcomes eng i ps w)) = total_notebooks_built v + length ps"
  by (induction ps arbitrary: i v w) (auto simp: raised_def split: prod.splits option.splits)

section \<open>Facts about the change detector\<close>

lemma subseq_count_le: "subseq ys xs \<Longrightarrow> count_list ys z \<le> count_list xs z"
  by (induction rule: list_emb.induct) auto

lemma subseq_ConsE:
  "subseq ys (x # xs) \<Longrightarrow> subseq ys xs \<or> (\<exists>ys'. ys = x # ys' \<and> subseq ys' xs)"
  by (cases ys) (auto split: if_splits)

lemma count_list_filter: "P x \<Longrightarrow> count_list (filter P xs) x = count_list xs x"
  by (induction xs) auto

lemma dropWhile_decomp: "\<exists>a. s = a @ dropWhile P s \<and> (\<forall>c\<in>set a. P c)"
  by (metis takeWhile_dropWhile_id set_takeWhileD)

lemma strip_spec:
  "\<exists>a b. s = a @ strip s @ b \<and> (\<forall>c\<in>set a. isspace c) \<and> (\<forall>c\<in>set b. isspace c) \<and>
     (strip s \<noteq> [] \<longrightarrow> \<not> isspace (hd (strip s)) \<and> \<not> isspace (last (strip s)))"
proof -
  obtain a where a: "s = a @ lstrip s" "\<forall>c\<in>set a. isspace c"
    unfolding lstrip_def using dropWhile_decomp[of s isspace] by blast
  obtain b' where b': "rev (lstrip s) = b' @ dropWhile isspace (rev (lstrip s))"
    "\<forall>c\<in>set b'. isspace c"
    using dropWhile_decomp[of "rev (lstrip s)" isspace] by blast
  have "rev (rev (lstrip s)) = rev (b' @ dropWhile isspace (rev (lstrip s)))"
    using b'(1) by simp
  then have l: "lstrip s = strip s @ rev b'"
    by (simp add: strip_def rstrip_def)
  have e: "strip s \<noteq> [] \<longrightarrow> \<not> isspace (last (strip s))"
    by (simp add: strip_def rstrip_def last_rev hd_dropWhile)
  have h: "strip s \<noteq> [] \<longrightarrow> \<not> isspace (hd (strip s))"
  proof
    assume n: "strip s \<noteq> []"
    then have "hd (strip s) = hd (lstrip s)" using l by (metis hd_append2)
    moreover have "lstrip s \<noteq> []" using l n by auto
    ultimately show "\<not> isspace (hd (strip s))" by (simp add: lstrip_def hd_dropWhile)
  qed
  have s: "s = a @ strip s @ rev b'" using a(1) l by simp
  have rb: "\<forall>c\<in>set (rev b'). isspace c" using b'(2) by simp
  from e h have eh: "strip s \<noteq> [] \<longrightarrow>
      \<not> isspace (hd (strip s)) \<and> \<not> isspace (last (strip s))" by simp
  show ?thesis
    apply (rule exI[of _ a])
    apply (rule exI[of _ "rev b'"])
    by (intro conjI s a(2) rb eh)
qed

lemma filter_unique:
  assumes "subseq ys xs" "\<forall>x\<in>set ys. P x" "\<forall>x. P x \<longrightarrow> count_list ys x = count_list xs x"
  shows "ys = filter P xs"
  using assms
proof (induction xs arbitrary: ys rule: list.induct)
  case Nil
  then show ?case by simp
next
  case (Cons x xs)
  show ?case
  proof (cases "P x")
    case True
    have "\<not> subseq ys xs"
    proof
      assume "subseq ys xs"
      then have "count_list ys x \<le> count_list xs x" by (rule subseq_count_le)
      moreover have "count_list ys x = Suc (count_list xs x)" using Cons.prems(3) True by simp
      ultimately show False by simp
    qed
    with subseq_ConsE[OF Cons.prems(1)] obtain ys' where ys: "ys = x # ys'" "subseq ys' xs"
      by blast
    have "ys' = filter P xs"
    proof (rule Cons.IH[OF ys(2)])
      show "\<forall>x\<in>set ys'. P x" using Cons.prems(2) ys by simp
      show "\<forall>z. P z \<longrightarrow> count_list ys' z = count_list xs z"
      proof (intro allI impI)
        fix z assume "P z"
        then have "count_list ys z = count_list (x # xs) z" using Cons.prems(3) by blast
        then show "count_list ys' z = count_list xs z" using ys(1) by (simp split: if_splits)
      qed
    qed
    with ys True show ?thesis by simp
  next
    case False
    have "subseq ys xs"
    proof (cases ys)
      case Nil
      then show ?thesis by simp
    next
      case (Cons y ys')
      with Cons.prems(2) False have "y \<noteq> x" by auto
      with Cons.prems(1) Cons show ?thesis by simp
    qed
    moreover have "\<forall>z. P z \<longrightarrow> count_list ys z = count_list xs z"
    proof (intro allI impI)
      fix z assume pz: "P z"
      then have "z \<noteq> x" using False by auto
      moreover have "count_list ys z = count_list (x # xs) z" using Cons.prems(3) pz by blast
      ultimately show "count_list ys z = count_list xs z" by simp
    qed
    ultimately have "ys = filter P xs" using Cons.IH Cons.prems(2) by blast
    with False show ?thesis by simp
  qed
qed

lemma subseq_filter_self: "subseq (filter P xs) xs"
  by (induction xs) auto

lemma filter_exact:
  "(ys = filter P xs) \<longleftrightarrow>
     (subseq ys xs \<and> (\<forall>x \<in> set ys. P x) \<and> (\<forall>x. P x \<longrightarrow> count_list ys x = count_list xs x))"
  (is "?lhs \<longleftrightarrow> ?rhs")
proof
  assume y: ?lhs
  have 1: "subseq ys xs" unfolding y by (rule subseq_filter_self)
  have 2: "\<forall>x \<in> set ys. P x" unfolding y by simp
  have 3: "\<forall>x. P x \<longrightarrow> count_list ys x = count_list xs x"
    unfolding y using count_list_filter[of P _ xs] by blast
  from 1 2 3 show ?rhs by blast
next
  assume r: ?rhs
  from r have a: "subseq ys xs" by blast
  from r have b: "\<forall>x \<in> set ys. P x" by blast
  from r have c: "\<forall>x. P x \<longrightarrow> count_list ys x = count_list xs x" by blast
  show ?lhs by (rule filter_unique[OF a b c])
qed

lemma changed_notebooks_filter:
  "changed_notebooks L = filter notebook_suffix (map strip L)"
proof -
  have "(\<lambda>line. endswith line ''.ipynb'') = notebook_suffix"
    unfolding notebook_suffix_def by (rule ext) (rule endswith_iff)
  then show ?thesis unfolding changed_notebooks_def Let_def by (rule arg_cong)
qed

lemma changed_files_eval:
  "changed_notebooks changed_files = [''lesson1.ipynb'', ''lesson2.ipynb'']"
  by (simp add: changed_files_def changed_notebooks_def strip_def rstrip_def lstrip_def
      isspace_def endswith_def)

lemma write_lines_Nil: "write_lines [] = []"
  by (simp add: write_lines_def)

lemma no_notebooks_eval:
  "changed_notebooks (readlines (''readme.md'' @ [CHR 0x0A] @ ''fig.png'')) = []"
  by (simp add: changed_notebooks_def strip_def rstrip_def lstrip_def isspace_def endswith_def)

section \<open>Facts about a run of the rebuilder\<close>

lemma generate_paths_logs:
  "nb_errors (snd (generate_paths p w)) = nb_errors w \<and>
   ipynb_files_built (snd (generate_paths p w)) = ipynb_files_built w \<and>
   alarm (snd (generate_paths p w)) = alarm w"
  by (simp add: generate_paths_def emit_def Let_def)

lemma execute_logs:
  "nb_errors (snd (execute_notebook eng i p q w)) = nb_errors w \<and>
   ipynb_files_built (snd (execute_notebook eng i p q w)) = ipynb_files_built w"
  by (auto simp: execute_notebook_def emit_def Let_def nf_write_def split: option.splits sum.splits)

lemma execute_no_alarm:
  "alarm w = None \<Longrightarrow> alarm (snd (execute_notebook eng i p q w)) = None"
  by (auto simp: execute_notebook_def emit_def Let_def nf_write_def split: option.splits sum.splits)

lemma rebuild_logs:
  "nb_errors (snd (rebuild_notebook eng i p w)) = nb_errors w \<and>
   ipynb_files_built (snd (rebuild_notebook eng i p w)) = ipynb_files_built w"
proof -
  obtain q w1 where g: "generate_paths p w = (q, w1)" by (cases "generate_paths p w")
  from generate_paths_logs[of p w] g
  have l1: "nb_errors w1 = nb_errors w" "ipynb_files_built w1 = ipynb_files_built w" by simp_all
  show ?thesis
  proof (cases "nf_read p w1")
    case (Inl ex)
    with g l1 show ?thesis by (simp add: rebuild_notebook_def)
  next
    case (Inr nb)
    note r = this
    show ?thesis
    proof (cases "normalize_kernel_name nb q w1")
      case (Inl ex)
      with g l1 r show ?thesis by (simp add: rebuild_notebook_def)
    next
      case (Inr w2)
      from normalize_trace[OF Inr] execute_logs[of eng i q q w2] g l1 r Inr
      show ?thesis by (simp add: rebuild_notebook_def)
    qed
  qed
qed

lemma rebuild_no_alarm:
  assumes "alarm w = None"
  shows "alarm (snd (rebuild_notebook eng i p w)) = None"
proof -
  obtain q w1 where g: "generate_paths p w = (q, w1)" by (cases "generate_paths p w")
  from generate_paths_logs[of p w] g assms have l1: "alarm w1 = None" by simp
  show ?thesis
  proof (cases "nf_read p w1")
    case (Inl ex)
    with g l1 show ?thesis by (simp add: rebuild_notebook_def)
  next
    case (Inr nb)
    note r = this
    show ?thesis
    proof (cases "normalize_kernel_name nb q w1")
      case (Inl ex)
      with g l1 r show ?thesis by (simp add: rebuild_notebook_def)
    next
      case (Inr w2)
      from normalize_trace[OF Inr] l1 have "alarm w2 = None" by simp
      from execute_no_alarm[OF this, of eng i q q] g r Inr
      show ?thesis by (simp add: rebuild_notebook_def)
    qed
  qed
qed

lemma build_loop_logs:
  "nb_errors (snd (build_loop eng i ps (v, w))) = nb_errors w \<and>
   ipynb_files_built (snd (build_loop eng i ps (v, w))) = ipynb_files_built w"
proof (induction ps arbitrary: i v w)
  case Nil
  then show ?case by simp
next
  case (Cons p ps)
  obtain ex w1 where r: "rebuild_notebook eng i p (emit (Building p) w) = (ex, w1)"
    by (cases "rebuild_notebook eng i p (emit (Building p) w)")
  from rebuild_logs[of eng i p "emit (Building p) w"] r
  have l: "nb_errors w1 = nb_errors w" "ipynb_files_built w1 = ipynb_files_built w"
    by (simp_all add: emit_def)
  show ?case
  proof (cases ex)
    case None
    with r l Cons.IH[of "Suc i" _ "emit (Success p) w1"] show ?thesis by (simp add: emit_def)
  next
    case (Some e)
    with r l Cons.IH[of "Suc i" _ "emit (Traceback e) w1"] show ?thesis by (simp add: emit_def)
  qed
qed

lemma build_loop_no_alarm:
  "alarm w = None \<Longrightarrow> alarm (snd (build_loop eng i ps (v, w))) = None"
proof (induction ps arbitrary: i v w)
  case Nil
  then show ?case by simp
next
  case (Cons p ps)
  obtain ex w1 where r: "rebuild_notebook eng i p (emit (Building p) w) = (ex, w1)"
    by (cases "rebuild_notebook eng i p (emit (Building p) w)")
  have "alarm (emit (Building p) w) = None" using Cons.prems by (simp add: emit_def)
  from rebuild_no_alarm[OF this, of eng i p] r have l: "alarm w1 = None" by simp
  show ?case
  proof (cases ex)
    case None
    with r l Cons.IH[of "emit (Success p) w1" "Suc i"] show ?thesis by (simp add: emit_def)
  next
    case (Some e)
    with r l Cons.IH[of "emit (Traceback e) w1" "Suc i"] show ?thesis by (simp add: emit_def)
  qed
qed

lemma set_raised: "set (raised ps os) \<subseteq> set ps"
  by (auto simp: raised_def dest: set_zip_leftD)

lemma run_notebooks_exit:
  "length argv \<le> 1 \<Longrightarrow> run_notebooks eng argv w = (Inl (SystemExit ''No notebooks to rebuild.''), w)"
  by (simp add: run_notebooks_def)

lemma run_notebooks_run:
  assumes "1 < length argv"
  shows "\<exists>r w'. run_notebooks eng argv w = (Inr r, w') \<and>
           notebooks_to_rebuild r = sort (drop 1 argv) \<and>
           problem_notebooks r = problem_notebooks (fst (build_loop eng 0 (sort (drop 1 argv)) (start w))) \<and>
           failed_count r = failed_count (fst (build_loop eng 0 (sort (drop 1 argv)) (start w))) \<and>
           total_notebooks_built r = total_notebooks_built (fst (build_loop eng 0 (sort (drop 1 argv)) (start w))) \<and>
           successful_notebooks r = filter (\<lambda>x. x \<notin> set (problem_notebooks r)) (sort (drop 1 argv)) \<and>
           nb_errors w' = append_to (nb_errors w) (problem_notebooks r) \<and>
           ipynb_files_built w' = overwrite (ipynb_files_built w) (successful_notebooks r) \<and>
           \<not> tmp_isdir w' \<and>
           (\<exists>es. trace w' = trace (snd (build_loop eng 0 (sort (drop 1 argv)) (start w))) @ es \<and>
                 attempted es = [] \<and> alarms es = [])"
proof -
  let ?ps = "sort (drop 1 argv)"
  obtain v w1 where b: "build_loop eng 0 ?ps (start w) = (v, w1)"
    by (cases "build_loop eng 0 ?ps (start w)")
  from build_loop_logs[of eng 0 ?ps "fst (start w)" "snd (start w)"] b
  have l: "nb_errors w1 = nb_errors w" "ipynb_files_built w1 = ipynb_files_built w"
    by (simp_all add: start_def emit_def)
  have b': "build_loop eng 0 ?ps
      (\<lparr>problem_notebooks = [], failed_count = 0, total_notebooks_built = 0\<rparr>,
       emit (Alarm 570) (w\<lparr>alarm := Some 570\<rparr>)) = (v, w1)"
    using b by (simp add: start_def)
  show ?thesis
  proof (cases "tmp_isdir w1")
    case True
    with assms b b' l show ?thesis
      by (simp add: run_notebooks_def Let_def rmtree_def emit_def)
  next
    case False
    with assms b b' l show ?thesis
      by (simp add: run_notebooks_def Let_def)
  qed
qed

lemma run_notebooks_trace:
  assumes "1 < length argv"
  shows "\<exists>es. trace (snd (run_notebooks eng argv w)) = trace w @ Alarm 570 # es \<and>
           attempted es = sort (drop 1 argv) \<and> alarms es = []"
proof -
  let ?ps = "sort (drop 1 argv)"
  from run_notebooks_run[OF assms, of eng w] obtain r w' es1 where
    r: "run_notebooks eng argv w = (Inr r, w')"
    and t1: "trace w' = trace (snd (build_loop eng 0 ?ps (start w))) @ es1"
      "attempted es1 = []" "alarms es1 = []" by blast
  from build_loop_trace[of eng 0 ?ps "fst (start w)" "snd (start w)"] obtain es2 where
    t2: "trace (snd (build_loop eng 0 ?ps (start w))) = trace (snd (start w)) @ es2"
      "attempted es2 = ?ps" "alarms es2 = []" by auto
  have "trace w' = trace w @ Alarm 570 # (es2 @ es1)"
    using t1 t2 by (simp add: start_def emit_def)
  moreover have "attempted (es2 @ es1) = ?ps" "alarms (es2 @ es1) = []"
    using t1 t2 by (simp_all add: attempted_append alarms_append)
  ultimately show ?thesis using r by auto
qed

lemma sort_ab: "sort [''b.ipynb'', ''a.ipynb''] = [''a.ipynb'', ''b.ipynb'']"
  by code_simp

lemma run_ba_report:
  "fst (run_notebooks engine_first_fails [''run_notebooks.py'', ''b.ipynb'', ''a.ipynb''] world0) =
     Inr \<lparr>problem_notebooks = [''a.ipynb''], failed_count = 1, total_notebooks_built = 1,
          notebooks_to_rebuild = [''a.ipynb'', ''b.ipynb''],
          successful_notebooks = [''b.ipynb'']\<rparr>"
  by code_simp

lemma run_ba_trace:
  "trace (snd (run_notebooks engine_first_fails [''run_notebooks.py'', ''b.ipynb'', ''a.ipynb''] world0)) =
     [Alarm 570, Building ''a.ipynb'', Makedirs ''./tmp'', Execute ''tmp/a.ipynb'',
      Traceback (PapermillExecutionError ''kernel died''),
      Building ''b.ipynb'', Execute ''tmp/b.ipynb'', Success ''b.ipynb'', Rmtree ''./tmp'']"
  by code_simp

lemma in_raised:
  assumes "length os = length ps"
  shows "y \<in> set (raised ps os) \<longleftrightarrow> (\<exists>i<length ps. ps ! i = y \<and> os ! i \<noteq> None)"
proof
  assume "y \<in> set (raised ps os)"
  then obtain ex where "(y, ex) \<in> set (zip ps os)" "ex \<noteq> None"
    by (auto simp: raised_def)
  then obtain i where "i < length ps" "ps ! i = y" "os ! i = ex"
    using assms by (auto simp: set_zip)
  with \<open>ex \<noteq> None\<close> show "\<exists>i<length ps. ps ! i = y \<and> os ! i \<noteq> None" by blast
next
  assume "\<exists>i<length ps. ps ! i = y \<and> os ! i \<noteq> None"
  then obtain i where i: "i < length ps" "ps ! i = y" "os ! i \<noteq> None" by blast
  then have "(y, os ! i) \<in> set (zip ps os)" using assms by (auto simp: set_zip)
  with i(3) show "y \<in> set (raised ps os)" by (force simp: raised_def)
qed

lemma run_notebooks_failed:
  assumes "1 < length argv"
  shows "\<exists>r w'. run_notebooks eng argv w = (Inr r, w') \<and>
           problem_notebooks r =
             raised (sort (drop 1 argv)) (outcomes eng 0 (sort (drop 1 argv)) (snd (start w))) \<and>
           successful_notebooks r =
             filter (\<lambda>x. x \<notin> set (problem_notebooks r)) (sort (drop 1 argv)) \<and>
           nb_errors w' = append_to (nb_errors w) (problem_notebooks r) \<and>
           ipynb_files_built w' = overwrite (ipynb_files_built w) (successful_notebooks r)"
proof -
  let ?ps = "sort (drop 1 argv)"
  from run_notebooks_run[OF assms, of eng w] obtain r w' where
    r: "run_notebooks eng argv w = (Inr r, w')"
    and p: "problem_notebooks r = problem_notebooks (fst (build_loop eng 0 ?ps (start w)))"
    and s: "successful_notebooks r = filter (\<lambda>x. x \<notin> set (problem_notebooks r)) ?ps"
    and l: "nb_errors w' = append_to (nb_errors w) (problem_notebooks r)"
       "ipynb_files_built w' = overwrite (ipynb_files_built w) (successful_notebooks r)"
    by blast
  have "problem_notebooks r = raised ?ps (outcomes eng 0 ?ps (snd (start w)))"
    using p build_loop_problem[of eng 0 ?ps "fst (start w)" "snd (start w)"]
    by (simp add: start_def)
  with r s l show ?thesis by blast
qed

lemma run_ba_logs:
  "nb_errors (snd (run_notebooks engine_first_fails [''run_notebooks.py'', ''b.ipynb'', ''a.ipynb''] world0))
     = Some (''old.ipynb'' @ [CHR 0x0A] @ ''a.ipynb'' @ [CHR 0x0A]) \<and>
   ipynb_files_built (snd (run_notebooks engine_first_fails [''run_notebooks.py'', ''b.ipynb'', ''a.ipynb''] world0))
     = Some (''b.ipynb'' @ [CHR 0x0A])"
  by code_simp

lemma run_aa_report:
  "fst (run_notebooks engine_first_fails [''run_notebooks.py'', ''a.ipynb'', ''a.ipynb''] world0) =
     Inr \<lparr>problem_notebooks = [''a.ipynb''], failed_count = 1, total_notebooks_built = 1,
          notebooks_to_rebuild = [''a.ipynb'', ''a.ipynb''],
          successful_notebooks = []\<rparr>"
  by code_simp

lemma run_aa_outcomes:
  "outcomes engine_first_fails 0 (sort (drop 1 [''run_notebooks.py'', ''a.ipynb'', ''a.ipynb'']))
     (snd (start world0)) = [Some (PapermillExecutionError ''kernel died''), None]"
  by code_simp

lemma run_aa_logs:
  "ipynb_files_built (snd (run_notebooks engine_first_fails [''run_notebooks.py'', ''a.ipynb'', ''a.ipynb''] world0))
     = Some []"
  by code_simp

lemma run_ba_outcomes:
  "outcomes engine_first_fails 0 (sort (drop 1 [''run_notebooks.py'', ''b.ipynb'', ''a.ipynb'']))
     (snd (start world0)) = [Some (PapermillExecutionError ''kernel died''), None]"
  by code_simp

lemma isolated_failed:
  assumes p: "problem = raised ps os" and len: "length os = length ps"
  shows "\<forall>i<length ps. os ! i \<noteq> None \<longrightarrow> ps ! i \<in> set problem"
proof (intro allI impI)
  fix i assume "i < length ps" "os ! i \<noteq> None"
  then have "\<exists>j<length ps. ps ! j = ps ! i \<and> os ! j \<noteq> None" by blast
  then have "ps ! i \<in> set (raised ps os)" by (simp only: in_raised[OF len])
  then show "ps ! i \<in> set problem" by (simp only: p)
qed

lemma isolated_succeeded:
  assumes p: "problem = raised ps os" and len: "length os = length ps"
    and s: "successful = filter (\<lambda>x. x \<notin> set problem) ps"
    and y: "y \<in> set ps" and ok: "\<forall>i<length ps. ps ! i = y \<longrightarrow> os ! i = None"
  shows "y \<in> set successful \<and> y \<notin> set problem"
proof -
  from ok have "\<not> (\<exists>i<length ps. ps ! i = y \<and> os ! i \<noteq> None)" by simp
  then have "y \<notin> set (raised ps os)" using in_raised[OF len, of y] by simp
  then have n: "y \<notin> set problem" by (simp add: p)
  with y have "y \<in> set (filter (\<lambda>x. x \<notin> set problem) ps)" by simp
  then have "y \<in> set successful" by (simp only: s)
  with n show ?thesis by (rule conjI[rotated])
qed

section \<open>Facts about normalization and the alarm\<close>

lemma startswith_iff: "startswith s pre \<longleftrightarrow> (\<exists>b. s = pre @ b)"
proof
  assume "startswith s pre"
  then have "s = pre @ drop (length pre) s"
    unfolding startswith_def by (metis append_take_drop_id)
  then show "\<exists>b. s = pre @ b" ..
next
  assume "\<exists>b. s = pre @ b"
  then show "startswith s pre" unfolding startswith_def by auto
qed

lemma contains_iff: "contains s sub \<longleftrightarrow> (\<exists>a b. s = a @ sub @ b)"
proof (induction s)
  case Nil
  show ?case by simp
next
  case (Cons c cs)
  show ?case
  proof
    assume "contains (c # cs) sub"
    then consider "startswith (c # cs) sub" | "contains cs sub" by auto
    then show "\<exists>a b. c # cs = a @ sub @ b"
    proof cases
      case 1
      then obtain b where "c # cs = sub @ b" unfolding startswith_iff ..
      then have "c # cs = [] @ sub @ b" by simp
      then show ?thesis by blast
    next
      case 2
      then obtain a b where "cs = a @ sub @ b" unfolding Cons.IH by blast
      then have "c # cs = (c # a) @ sub @ b" by simp
      then show ?thesis by blast
    qed
  next
    assume "\<exists>a b. c # cs = a @ sub @ b"
    then obtain a b where e: "c # cs = a @ sub @ b" by blast
    show "contains (c # cs) sub"
    proof (cases a)
      case Nil
      with e have "startswith (c # cs) sub" unfolding startswith_iff by auto
      then show ?thesis by simp
    next
      case (Cons x a')
      with e have "cs = a' @ sub @ b" by simp
      then have "contains cs sub" unfolding Cons.IH by blast
      then show ?thesis by simp
    qed
  qed
qed

lemma generate_paths_lazy:
  "tmp_isdir (snd (generate_paths p w)) \<and>
   (tmp_isdir w \<longrightarrow> snd (generate_paths p w) = w) \<and>
   (\<not> tmp_isdir w \<longrightarrow>
      snd (generate_paths p w) = emit (Makedirs ''./tmp'') (w\<lparr>tmp_isdir := True\<rparr>))"
  by (simp add: generate_paths_def Let_def emit_def join_def startswith_def endswith_def)

lemma normalize_rewrites:
  assumes "kernelspec (metadata nb) = Some ks" "display_name ks = Some dn"
    "contains dn ''[conda env:''" "language ks = Some ''python''"
    "language_info (metadata nb) = Some li" "version li = Some v"
  shows "normalize_kernel_name nb q w =
     Inr (nf_write
       (nb\<lparr>metadata := (metadata nb)\<lparr>kernelspec := Some
          (ks\<lparr>name := Some (if startswith v ''3.'' then ''python3'' else ''python2''),
              display_name := Some (if startswith v ''3.'' then ''Python 3'' else ''Python 2'')\<rparr>)\<rparr>\<rparr>)
       q w)"
  using assms by (simp add: normalize_kernel_name_def set_kernel_def)

lemma normalize_keeps:
  assumes "kernelspec (metadata nb) = Some ks" "display_name ks = Some dn"
    "\<not> contains dn ''[conda env:'' \<or> (\<exists>l. language ks = Some l \<and> l \<noteq> ''python'')"
  shows "normalize_kernel_name nb q w = Inr (nf_write nb q w)"
  using assms by (auto simp: normalize_kernel_name_def)

lemma wk08_basename: "basename ''in-class-demos/wk08.ipynb'' = ''wk08.ipynb''"
  by code_simp

lemma conda_contains: "contains ''Python [conda env:earth]'' ''[conda env:''"
  by code_simp

lemma wk08_staged: "fst (generate_paths ''in-class-demos/wk08.ipynb'' world0) = ''tmp/wk08.ipynb''"
  by code_simp

lemma execute_timeout:
  assumes "alarm w = Some t" "notebooks w p = Some nb" "t \<le> duration (eng i nb)"
  shows "execute_notebook eng i p p w = (Some handler, (emit (Execute p) w)\<lparr>alarm := None\<rparr>)"
  using assms by (simp add: execute_notebook_def Let_def emit_def)

lemma execute_in_time:
  assumes "alarm w = Some t" "notebooks w p = Some nb" "duration (eng i nb) < t"
  shows "alarm (snd (execute_notebook eng i p p w)) = Some (t - duration (eng i nb)) \<and>
         fst (execute_notebook eng i p p w) =
           (case outcome (eng i nb) of Inl ex \<Rightarrow> Some ex | Inr nb' \<Rightarrow> None)"
  using assms
  by (simp add: execute_notebook_def Let_def emit_def nf_write_def split: sum.splits)

lemma execute_unarmed:
  assumes "alarm w = None" "notebooks w p = Some nb"
  shows "alarm (snd (execute_notebook eng i p p w)) = None \<and>
         fst (execute_notebook eng i p p w) =
           (case outcome (eng i nb) of Inl ex \<Rightarrow> Some ex | Inr nb' \<Rightarrow> None)"
  using assms
  by (simp add: execute_notebook_def Let_def emit_def nf_write_def split: sum.splits)

lemma build_loop_caught:
  assumes "rebuild_notebook eng i p (emit (Building p) w) = (Some ex, w1)"
  shows "build_loop eng i (p # ps) (v, w) =
           build_loop eng (Suc i) ps
             (v\<lparr>problem_notebooks := problem_notebooks v @ [p],
                failed_count := failed_count v + 1\<rparr>, emit (Traceback ex) w1)"
  using assms by simp

lemma run_slow_report:
  "fst (run_notebooks engine_slow [''run_notebooks.py'', ''b.ipynb'', ''a.ipynb''] world0) =
     Inr \<lparr>problem_notebooks = [''a.ipynb''], failed_count = 1, total_notebooks_built = 1,
          notebooks_to_rebuild = [''a.ipynb'', ''b.ipynb''],
          successful_notebooks = [''b.ipynb'']\<rparr>"
  by code_simp

lemma run_slow_trace:
  "trace (snd (run_notebooks engine_slow [''run_notebooks.py'', ''b.ipynb'', ''a.ipynb''] world0)) =
     [Alarm 570, Building ''a.ipynb'', Makedirs ''./tmp'', Execute ''tmp/a.ipynb'',
      Traceback (Exception ''Notebook build timed out.''),
      Building ''b.ipynb'', Execute ''tmp/b.ipynb'', Success ''b.ipynb'', Rmtree ''./tmp'']"
  by code_simp

lemma run_slow_alarm:
  "alarm (snd (run_notebooks engine_slow [''run_notebooks.py'', ''b.ipynb'', ''a.ipynb''] world0)) = None"
  by code_simp

section \<open>The properties\<close>

text \<open>
  C2. For every list of raw lines \<open>L\<close>, the change detector returns exactly the
  order-preserving sublist of the stripped lines that end with \<^verbatim>\<open>.ipynb\<close>: a list is
  the result if and only if it is a subsequence of the stripped lines (nothing added,
  nothing reordered), all its entries end with the suffix, and every path with the
  suffix occurs in it as often as among the stripped lines (nothing else removed, no
  deduplication).
\<close>

theorem changed_notebooks_exact:
  "(ys = changed_notebooks L) \<longleftrightarrow>
     (subseq ys (map strip L) \<and>
      (\<forall>p \<in> set ys. notebook_suffix p) \<and>
      (\<forall>p. notebook_suffix p \<longrightarrow> count_list ys p = count_list (map strip L) p))"
  unfolding changed_notebooks_filter by (rule filter_exact)

theorem changed_notebooks_exact_witness:
  "changed_notebooks changed_files = [''lesson1.ipynb'', ''lesson2.ipynb''] \<and>
   subseq (changed_notebooks changed_files) (map strip changed_files) \<and>
   count_list (changed_notebooks changed_files) ''lesson2.ipynb'' =
     count_list (map strip changed_files) ''lesson2.ipynb''"
proof -
  have e: "notebook_suffix ''lesson2.ipynb''"
    unfolding notebook_suffix_def by (rule exI[of _ "''lesson2''"]) simp
  from changed_notebooks_exact[of "changed_notebooks changed_files" changed_files]
  have "subseq (changed_notebooks changed_files) (map strip changed_files)"
    and "\<forall>p. notebook_suffix p \<longrightarrow>
           count_list (changed_notebooks changed_files) p = count_list (map strip changed_files) p"
    by blast+
  with e changed_files_eval show ?thesis by blast
qed

text \<open>
  C4 (as the code has it). The change detector opens the output file for writing before
  it looks at the filtered list, so the file is always created (or emptied): after a run
  that could read its input, \<^verbatim>\<open>changed_notebooks.txt\<close> exists and holds the filtered
  paths, one per line; with no notebook among the changed files it exists and is empty.
\<close>

theorem parse_commit_output:
  assumes "files ''changed_files.txt'' = Some txt"
  shows "parse_commit files =
           Inr (files(''changed_notebooks.txt'' \<mapsto> write_lines (changed_notebooks (readlines txt))))"
proof (cases "changed_notebooks (readlines txt) = []")
  case True
  with assms show ?thesis by (simp add: parse_commit_def Let_def write_lines_Nil)
next
  case False
  with assms show ?thesis by (simp add: parse_commit_def Let_def)
qed

theorem parse_commit_output_witness:
  "fs_no_notebooks ''changed_files.txt'' = Some (''readme.md'' @ [CHR 0x0A] @ ''fig.png'') \<and>
   parse_commit fs_no_notebooks = Inr (fs_no_notebooks(''changed_notebooks.txt'' \<mapsto> []))"
proof -
  have h: "fs_no_notebooks ''changed_files.txt'' = Some (''readme.md'' @ [CHR 0x0A] @ ''fig.png'')"
    by (simp add: fs_no_notebooks_def)
  from parse_commit_output[of fs_no_notebooks "''readme.md'' @ [CHR 0x0A] @ ''fig.png''", OF h] no_notebooks_eval write_lines_Nil h show ?thesis by simp
qed

text \<open>
  The claim as it was stated fails: with no notebook among the changed files, the output
  file did not exist before the run and exists, empty, after it.
\<close>

theorem parse_commit_empty_counterexample:
  "changed_notebooks (readlines (''readme.md'' @ [CHR 0x0A] @ ''fig.png'')) = [] \<and>
   fs_no_notebooks ''changed_notebooks.txt'' = None \<and>
   parse_commit fs_no_notebooks = Inr (fs_no_notebooks(''changed_notebooks.txt'' \<mapsto> [])) \<and>
   (fs_no_notebooks(''changed_notebooks.txt'' \<mapsto> [])) ''changed_notebooks.txt'' \<noteq> None"
proof -
  have "parse_commit fs_no_notebooks = Inr (fs_no_notebooks(''changed_notebooks.txt'' \<mapsto> []))"
    using no_notebooks_eval
    by (simp add: parse_commit_def fs_no_notebooks_def Let_def)
  moreover have "fs_no_notebooks ''changed_notebooks.txt'' = None"
    by (simp add: fs_no_notebooks_def)
  ultimately show ?thesis using no_notebooks_eval by simp
qed

text \<open>
  C1. For every non-empty list of paths, the rebuilder ends with a report in which the
  succeeded and the failed paths are disjoint as sets, and together are the set of the
  paths given: no path is dropped.
\<close>

theorem rebuild_partition:
  assumes "paths \<noteq> []"
  shows "\<exists>r w'. run_notebooks eng (script # paths) w = (Inr r, w') \<and>
           set (successful_notebooks r) \<inter> set (problem_notebooks r) = {} \<and>
           set (successful_notebooks r) \<union> set (problem_notebooks r) = set paths"
proof -
  from assms have "1 < length (script # paths)" by (cases paths) simp_all
  from run_notebooks_run[OF this, of eng w] obtain r w' where
    r: "run_notebooks eng (script # paths) w = (Inr r, w')"
    and p: "problem_notebooks r = problem_notebooks (fst (build_loop eng 0 (sort paths) (start w)))"
    and s: "successful_notebooks r = filter (\<lambda>x. x \<notin> set (problem_notebooks r)) (sort paths)"
    by auto
  have "problem_notebooks r = raised (sort paths) (outcomes eng 0 (sort paths) (snd (start w)))"
    using p build_loop_problem[of eng 0 "sort paths" "fst (start w)" "snd (start w)"]
    by (simp add: start_def)
  then have sub: "set (problem_notebooks r) \<subseteq> set paths"
    using set_raised[of "sort paths"] by simp
  have "set (successful_notebooks r) \<inter> set (problem_notebooks r) = {}"
    unfolding s by auto
  moreover have "set (successful_notebooks r) \<union> set (problem_notebooks r) = set paths"
    unfolding s using sub by auto
  ultimately show ?thesis using r by blast
qed

theorem rebuild_partition_witness:
  "[''b.ipynb'', ''a.ipynb''] \<noteq> [] \<and>
   fst (run_notebooks engine_first_fails [''run_notebooks.py'', ''b.ipynb'', ''a.ipynb''] world0) =
     Inr \<lparr>problem_notebooks = [''a.ipynb''], failed_count = 1, total_notebooks_built = 1,
          notebooks_to_rebuild = [''a.ipynb'', ''b.ipynb''],
          successful_notebooks = [''b.ipynb'']\<rparr> \<and>
   (\<exists>r w'. run_notebooks engine_first_fails [''run_notebooks.py'', ''b.ipynb'', ''a.ipynb''] world0
              = (Inr r, w') \<and>
      set (successful_notebooks r) \<inter> set (problem_notebooks r) = {} \<and>
      set (successful_notebooks r) \<union> set (problem_notebooks r) = set [''b.ipynb'', ''a.ipynb''])"
proof -
  have h: "[''b.ipynb'', ''a.ipynb''] \<noteq> []" by simp
  from rebuild_partition[OF h, of engine_first_fails "''run_notebooks.py''" world0] run_ba_report
  show ?thesis by simp
qed

text \<open>
  C3 (as the code has it). The script sorts the paths before the loop (line 142), so the
  notebooks are attempted one after the other in ascending order of their paths, a
  sorted permutation of the paths given, and not in the order of the command line.
\<close>

theorem rebuild_order:
  assumes "1 < length argv"
  shows "\<exists>es. trace (snd (run_notebooks eng argv w)) = trace w @ es \<and>
           attempted es = sort (drop 1 argv) \<and>
           sorted (attempted es) \<and> mset (attempted es) = mset (drop 1 argv)"
proof -
  from run_notebooks_trace[OF assms, of eng w] obtain es where
    "trace (snd (run_notebooks eng argv w)) = trace w @ Alarm 570 # es"
    "attempted es = sort (drop 1 argv)" by blast
  then have "trace (snd (run_notebooks eng argv w)) = trace w @ (Alarm 570 # es) \<and>
     attempted (Alarm 570 # es) = sort (drop 1 argv) \<and>
     sorted (attempted (Alarm 570 # es)) \<and> mset (attempted (Alarm 570 # es)) = mset (drop 1 argv)"
    by simp
  then show ?thesis by blast
qed

theorem rebuild_order_witness:
  "1 < length [''run_notebooks.py'', ''b.ipynb'', ''a.ipynb''] \<and>
   (\<exists>es. trace (snd (run_notebooks engine_first_fails
                        [''run_notebooks.py'', ''b.ipynb'', ''a.ipynb''] world0)) = trace world0 @ es \<and>
         attempted es = [''a.ipynb'', ''b.ipynb''])"
proof -
  have h: "1 < length [''run_notebooks.py'', ''b.ipynb'', ''a.ipynb'']" by simp
  from rebuild_order[OF h, of engine_first_fails world0] sort_ab
  show ?thesis by auto
qed

text \<open>
  The claim as it was stated fails: given \<^verbatim>\<open>b.ipynb a.ipynb\<close>, the script attempts
  \<^verbatim>\<open>a.ipynb\<close> first.
\<close>

theorem rebuild_order_counterexample:
  "drop 1 [''run_notebooks.py'', ''b.ipynb'', ''a.ipynb''] = [''b.ipynb'', ''a.ipynb''] \<and>
   attempted (trace (snd (run_notebooks engine_first_fails
                           [''run_notebooks.py'', ''b.ipynb'', ''a.ipynb''] world0)))
     = [''a.ipynb'', ''b.ipynb''] \<and>
   [''a.ipynb'', ''b.ipynb''] \<noteq> [''b.ipynb'', ''a.ipynb'']"
  by (simp add: run_ba_trace)

text \<open>
  C5. With no path on the command line the script exits at once with the message
  \<^verbatim>\<open>No notebooks to rebuild.\<close> and leaves the world as it was: no engine call, no
  directory created, \<^verbatim>\<open>./tmp\<close> as before.
\<close>

theorem rebuild_exit:
  assumes "length argv \<le> 1"
  shows "run_notebooks eng argv w = (Inl (SystemExit ''No notebooks to rebuild.''), w) \<and>
         tmp_isdir (snd (run_notebooks eng argv w)) = tmp_isdir w \<and>
         trace (snd (run_notebooks eng argv w)) = trace w \<and>
         executed (trace (snd (run_notebooks eng argv w))) = executed (trace w) \<and>
         made (trace (snd (run_notebooks eng argv w))) = made (trace w)"
  using assms by (simp add: run_notebooks_exit)

theorem rebuild_exit_witness:
  "length [''run_notebooks.py''] \<le> 1 \<and>
   run_notebooks engine_first_fails [''run_notebooks.py''] world0 =
     (Inl (SystemExit ''No notebooks to rebuild.''), world0)"
proof -
  have h: "length [''run_notebooks.py''] \<le> 1" by simp
  from rebuild_exit[OF h, of engine_first_fails world0] show ?thesis by simp
qed

text \<open>
  C6. A failure stays with its notebook. Whatever a call of \<^verbatim>\<open>rebuild_notebook\<close> raises,
  while normalizing or while executing, is caught: the path of that notebook is recorded
  in \<^verbatim>\<open>problem_notebooks\<close>, and the loop goes on, so that every notebook of the batch is
  attempted. A path none of whose rebuilds raised is among the successful notebooks and
  not among the failed ones.
\<close>

theorem failure_isolated:
  assumes "1 < length argv"
  shows "\<exists>r w'. run_notebooks eng argv w = (Inr r, w') \<and>
           (\<forall>i<length (sort (drop 1 argv)).
              outcomes eng 0 (sort (drop 1 argv)) (snd (start w)) ! i \<noteq> None \<longrightarrow>
              sort (drop 1 argv) ! i \<in> set (problem_notebooks r)) \<and>
           (\<forall>y\<in>set (drop 1 argv).
              (\<forall>i<length (sort (drop 1 argv)).
                 sort (drop 1 argv) ! i = y \<longrightarrow>
                 outcomes eng 0 (sort (drop 1 argv)) (snd (start w)) ! i = None) \<longrightarrow>
              y \<in> set (successful_notebooks r) \<and> y \<notin> set (problem_notebooks r)) \<and>
           (\<exists>es. trace w' = trace w @ es \<and> attempted es = sort (drop 1 argv))"
proof -
  let ?ps = "sort (drop 1 argv)"
  let ?os = "outcomes eng 0 ?ps (snd (start w))"
  from run_notebooks_failed[OF assms, of eng w] obtain r w' where
    r: "run_notebooks eng argv w = (Inr r, w')"
    and p: "problem_notebooks r = raised ?ps ?os"
    and s: "successful_notebooks r = filter (\<lambda>x. x \<notin> set (problem_notebooks r)) ?ps"
    by blast
  have len: "length ?os = length ?ps" by (rule length_outcomes)
  have 1: "\<forall>i<length ?ps. ?os ! i \<noteq> None \<longrightarrow> ?ps ! i \<in> set (problem_notebooks r)"
    by (rule isolated_failed[OF p len])
  have 2: "\<forall>y\<in>set (drop 1 argv). (\<forall>i<length ?ps. ?ps ! i = y \<longrightarrow> ?os ! i = None) \<longrightarrow>
             y \<in> set (successful_notebooks r) \<and> y \<notin> set (problem_notebooks r)"
  proof (intro ballI impI)
    fix y assume y: "y \<in> set (drop 1 argv)"
      and ok: "\<forall>i<length ?ps. ?ps ! i = y \<longrightarrow> ?os ! i = None"
    from y have y': "y \<in> set ?ps" by simp
    show "y \<in> set (successful_notebooks r) \<and> y \<notin> set (problem_notebooks r)"
      by (rule isolated_succeeded[OF p len s y' ok])
  qed
  from run_notebooks_trace[OF assms, of eng w] obtain es where
    es: "trace (snd (run_notebooks eng argv w)) = trace w @ Alarm 570 # es" "attempted es = ?ps"
    by blast
  have "trace w' = trace w @ (Alarm 570 # es) \<and> attempted (Alarm 570 # es) = ?ps"
    using es r by simp
  then have 3: "\<exists>es. trace w' = trace w @ es \<and> attempted es = ?ps" by (rule exI)
  show ?thesis
    by (intro exI[of _ r] exI[of _ w'] conjI r 1 2 3)
qed

theorem failure_isolated_witness:
  "1 < length [''run_notebooks.py'', ''b.ipynb'', ''a.ipynb''] \<and>
   outcomes engine_first_fails 0 (sort (drop 1 [''run_notebooks.py'', ''b.ipynb'', ''a.ipynb'']))
     (snd (start world0)) = [Some (PapermillExecutionError ''kernel died''), None] \<and>
   (\<exists>r w'. run_notebooks engine_first_fails [''run_notebooks.py'', ''b.ipynb'', ''a.ipynb''] world0
              = (Inr r, w') \<and>
      ''a.ipynb'' \<in> set (problem_notebooks r) \<and>
      ''b.ipynb'' \<in> set (successful_notebooks r) \<and> ''b.ipynb'' \<notin> set (problem_notebooks r))"
proof -
  let ?argv = "[''run_notebooks.py'', ''b.ipynb'', ''a.ipynb'']"
  let ?ps = "sort (drop 1 ?argv)"
  let ?os = "outcomes engine_first_fails 0 ?ps (snd (start world0))"
  have h: "1 < length ?argv" by simp
  have ps: "?ps = [''a.ipynb'', ''b.ipynb'']" using sort_ab by simp
  note os = run_ba_outcomes
  from failure_isolated[OF h, of engine_first_fails world0] obtain r w' where
    r: "run_notebooks engine_first_fails ?argv world0 = (Inr r, w')"
    and f: "\<forall>i<length ?ps. ?os ! i \<noteq> None \<longrightarrow> ?ps ! i \<in> set (problem_notebooks r)"
    and g: "\<forall>y\<in>set (drop 1 ?argv). (\<forall>i<length ?ps. ?ps ! i = y \<longrightarrow> ?os ! i = None) \<longrightarrow>
             y \<in> set (successful_notebooks r) \<and> y \<notin> set (problem_notebooks r)"
    by blast
  have o0: "?os ! 0 \<noteq> None" unfolding run_ba_outcomes by simp
  have "0 < length ?ps" "?ps ! 0 = ''a.ipynb''" using sort_ab by simp_all
  note this o0
  with f have a: "''a.ipynb'' \<in> set (problem_notebooks r)" by metis
  have ok: "\<forall>i<length ?ps. ?ps ! i = ''b.ipynb'' \<longrightarrow> ?os ! i = None"
    unfolding run_ba_outcomes using sort_ab by (simp add: less_Suc_eq)
  have "''b.ipynb'' \<in> set (drop 1 ?argv)" by simp
  with g ok have b: "''b.ipynb'' \<in> set (successful_notebooks r) \<and> ''b.ipynb'' \<notin> set (problem_notebooks r)"
    by blast
  from h os r a b show ?thesis by blast
qed

text \<open>
  C9. After the batch, \<^verbatim>\<open>nb_errors.txt\<close> holds what it held before followed by one line
  per failed path (nothing more when no notebook failed), and \<^verbatim>\<open>ipynb_files_built.txt\<close>
  holds, whatever it held before, one line per path of this run that is not among the
  failed paths.
\<close>

theorem logs_written:
  assumes "1 < length argv"
  shows "\<exists>r w'. run_notebooks eng argv w = (Inr r, w') \<and>
           nb_errors w' =
             Some ((case nb_errors w of None \<Rightarrow> [] | Some txt \<Rightarrow> txt) @ write_lines (problem_notebooks r)) \<and>
           (problem_notebooks r = [] \<longrightarrow>
              nb_errors w' = Some (case nb_errors w of None \<Rightarrow> [] | Some txt \<Rightarrow> txt)) \<and>
           ipynb_files_built w' =
             Some (write_lines (filter (\<lambda>x. x \<notin> set (problem_notebooks r)) (sort (drop 1 argv))))"
proof -
  from run_notebooks_failed[OF assms, of eng w] obtain r w' where
    r: "run_notebooks eng argv w = (Inr r, w')"
    and s: "successful_notebooks r = filter (\<lambda>x. x \<notin> set (problem_notebooks r)) (sort (drop 1 argv))"
    and l: "nb_errors w' = append_to (nb_errors w) (problem_notebooks r)"
       "ipynb_files_built w' = overwrite (ipynb_files_built w) (successful_notebooks r)"
    by blast
  have 1: "nb_errors w' =
      Some ((case nb_errors w of None \<Rightarrow> [] | Some txt \<Rightarrow> txt) @ write_lines (problem_notebooks r))"
    using l(1) by (simp add: append_to_def)
  have 2: "problem_notebooks r = [] \<longrightarrow>
      nb_errors w' = Some (case nb_errors w of None \<Rightarrow> [] | Some txt \<Rightarrow> txt)"
    using 1 by (simp add: write_lines_Nil)
  have 3: "ipynb_files_built w' =
      Some (write_lines (filter (\<lambda>x. x \<notin> set (problem_notebooks r)) (sort (drop 1 argv))))"
    using l(2) s by (simp add: overwrite_def)
  from r 1 2 3 show ?thesis by blast
qed

theorem logs_written_witness:
  "1 < length [''run_notebooks.py'', ''b.ipynb'', ''a.ipynb''] \<and>
   nb_errors world0 = Some (''old.ipynb'' @ [CHR 0x0A]) \<and>
   nb_errors (snd (run_notebooks engine_first_fails [''run_notebooks.py'', ''b.ipynb'', ''a.ipynb''] world0))
     = Some (''old.ipynb'' @ [CHR 0x0A] @ ''a.ipynb'' @ [CHR 0x0A]) \<and>
   ipynb_files_built (snd (run_notebooks engine_first_fails [''run_notebooks.py'', ''b.ipynb'', ''a.ipynb''] world0))
     = Some (''b.ipynb'' @ [CHR 0x0A]) \<and>
   (\<exists>r w'. run_notebooks engine_first_fails [''run_notebooks.py'', ''b.ipynb'', ''a.ipynb''] world0
              = (Inr r, w') \<and>
      nb_errors w' = Some ((case nb_errors world0 of None \<Rightarrow> [] | Some txt \<Rightarrow> txt)
                           @ write_lines (problem_notebooks r)))"
proof -
  have h: "1 < length [''run_notebooks.py'', ''b.ipynb'', ''a.ipynb'']" by simp
  have n: "nb_errors world0 = Some (''old.ipynb'' @ [CHR 0x0A])" by (simp add: world0_def)
  from logs_written[OF h, of engine_first_fails world0] obtain r w' where
    "run_notebooks engine_first_fails [''run_notebooks.py'', ''b.ipynb'', ''a.ipynb''] world0 = (Inr r, w')"
    "nb_errors w' = Some ((case nb_errors world0 of None \<Rightarrow> [] | Some txt \<Rightarrow> txt)
                           @ write_lines (problem_notebooks r))"
    by blast
  with h n run_ba_logs show ?thesis by blast
qed

text \<open>
  C10. A path one of whose occurrences failed is not among the successful notebooks, and
  so not in the success log, however its other occurrences ended: success is decided by
  the path, not by the occurrence.
\<close>

theorem duplicate_masked:
  assumes "1 < length argv"
    and "i < length (sort (drop 1 argv))"
    and "outcomes eng 0 (sort (drop 1 argv)) (snd (start w)) ! i \<noteq> None"
  shows "\<exists>r w'. run_notebooks eng argv w = (Inr r, w') \<and>
           sort (drop 1 argv) ! i \<notin> set (successful_notebooks r) \<and>
           ipynb_files_built w' = Some (write_lines (successful_notebooks r))"
proof -
  let ?ps = "sort (drop 1 argv)"
  let ?os = "outcomes eng 0 ?ps (snd (start w))"
  from run_notebooks_failed[OF assms(1), of eng w] obtain r w' where
    r: "run_notebooks eng argv w = (Inr r, w')"
    and p: "problem_notebooks r = raised ?ps ?os"
    and s: "successful_notebooks r = filter (\<lambda>x. x \<notin> set (problem_notebooks r)) ?ps"
    and l: "ipynb_files_built w' = overwrite (ipynb_files_built w) (successful_notebooks r)"
    by blast
  have len: "length ?os = length ?ps" by (rule length_outcomes)
  have "?ps ! i \<in> set (raised ?ps ?os)"
    using in_raised[OF len] assms(2,3) by blast
  then have "?ps ! i \<notin> set (successful_notebooks r)" unfolding s p by simp
  with r l show ?thesis by (simp add: overwrite_def)
qed

theorem duplicate_masked_witness:
  "1 < length [''run_notebooks.py'', ''a.ipynb'', ''a.ipynb''] \<and>
   0 < length (sort (drop 1 [''run_notebooks.py'', ''a.ipynb'', ''a.ipynb''])) \<and>
   outcomes engine_first_fails 0 (sort (drop 1 [''run_notebooks.py'', ''a.ipynb'', ''a.ipynb'']))
     (snd (start world0)) = [Some (PapermillExecutionError ''kernel died''), None] \<and>
   fst (run_notebooks engine_first_fails [''run_notebooks.py'', ''a.ipynb'', ''a.ipynb''] world0) =
     Inr \<lparr>problem_notebooks = [''a.ipynb''], failed_count = 1, total_notebooks_built = 1,
          notebooks_to_rebuild = [''a.ipynb'', ''a.ipynb''],
          successful_notebooks = []\<rparr> \<and>
   (\<exists>r w'. run_notebooks engine_first_fails [''run_notebooks.py'', ''a.ipynb'', ''a.ipynb''] world0
              = (Inr r, w') \<and>
      sort (drop 1 [''run_notebooks.py'', ''a.ipynb'', ''a.ipynb'']) ! 0 \<notin> set (successful_notebooks r) \<and>
      ipynb_files_built w' = Some (write_lines (successful_notebooks r)))"
proof -
  let ?argv = "[''run_notebooks.py'', ''a.ipynb'', ''a.ipynb'']"
  have h1: "1 < length ?argv" by simp
  have h2: "0 < length (sort (drop 1 ?argv))" by simp
  have h3: "outcomes engine_first_fails 0 (sort (drop 1 ?argv)) (snd (start world0)) ! 0 \<noteq> None"
    unfolding run_aa_outcomes by simp
  from duplicate_masked[OF h1 h2 h3] h1 h2 run_aa_outcomes run_aa_report
  show ?thesis by blast
qed

text \<open>
  C8. For a notebook whose kernel display name contains \<^verbatim>\<open>[conda env:\<close> and whose
  kernel language is \<^verbatim>\<open>python\<close>, normalization sets the kernel's name and display name
  to \<^verbatim>\<open>python3\<close> and \<^verbatim>\<open>Python 3\<close> when the language version starts with \<^verbatim>\<open>3.\<close>, and to
  \<^verbatim>\<open>python2\<close> and \<^verbatim>\<open>Python 2\<close> otherwise, and writes the document under \<^verbatim>\<open>tmp/\<close>
  followed by the base name of the path given; \<^verbatim>\<open>./tmp\<close> is created when it is not
  there yet and left alone when it is; the engine is then run on the staged document.
  The path given names a file: its last component is not empty, \<^verbatim>\<open>.\<close> or \<^verbatim>\<open>..\<close>.
\<close>

theorem kernel_normalized:
  assumes "kernelspec (metadata nb) = Some ks" "display_name ks = Some dn"
    "contains dn ''[conda env:''" "language ks = Some ''python''"
    "language_info (metadata nb) = Some li" "version li = Some v"
    and "basename notebook_path \<noteq> []" "basename notebook_path \<noteq> ''.''"
      "basename notebook_path \<noteq> ''..''"
  shows "\<exists>w1 nb'.
      generate_paths notebook_path w = (''tmp/'' @ basename notebook_path, w1) \<and>
      tmp_isdir w1 \<and> (tmp_isdir w \<longrightarrow> w1 = w) \<and>
      (\<not> tmp_isdir w \<longrightarrow> w1 = emit (Makedirs ''./tmp'') (w\<lparr>tmp_isdir := True\<rparr>)) \<and>
      nb' = nb\<lparr>metadata := (metadata nb)\<lparr>kernelspec := Some
               (ks\<lparr>name := Some (if startswith v ''3.'' then ''python3'' else ''python2''),
                   display_name := Some (if startswith v ''3.'' then ''Python 3'' else ''Python 2'')\<rparr>)\<rparr>\<rparr> \<and>
      normalize_kernel_name nb (''tmp/'' @ basename notebook_path) w1 =
        Inr (w1\<lparr>notebooks := (notebooks w1)(''tmp/'' @ basename notebook_path \<mapsto> nb')\<rparr>) \<and>
      (notebooks w notebook_path = Some nb \<longrightarrow>
         rebuild_notebook eng total_num notebook_path w =
           execute_notebook eng total_num (''tmp/'' @ basename notebook_path)
             (''tmp/'' @ basename notebook_path)
             (w1\<lparr>notebooks := (notebooks w1)(''tmp/'' @ basename notebook_path \<mapsto> nb')\<rparr>))"
proof -
  let ?q = "''tmp/'' @ basename notebook_path"
  let ?nb = "nb\<lparr>metadata := (metadata nb)\<lparr>kernelspec := Some
               (ks\<lparr>name := Some (if startswith v ''3.'' then ''python3'' else ''python2''),
                   display_name := Some (if startswith v ''3.'' then ''Python 3'' else ''Python 2'')\<rparr>)\<rparr>\<rparr>"
  obtain q w1 where g: "generate_paths notebook_path w = (q, w1)"
    by (cases "generate_paths notebook_path w")
  from staged_path[OF assms(7-9), of w] g have q: "q = ?q" by simp
  from generate_paths_lazy[of notebook_path w] g
  have lazy: "tmp_isdir w1" "tmp_isdir w \<longrightarrow> w1 = w"
    "\<not> tmp_isdir w \<longrightarrow> w1 = emit (Makedirs ''./tmp'') (w\<lparr>tmp_isdir := True\<rparr>)"
    by simp_all
  have n: "normalize_kernel_name nb ?q w1 = Inr (w1\<lparr>notebooks := (notebooks w1)(?q \<mapsto> ?nb)\<rparr>)"
    using normalize_rewrites[OF assms(1-6), of ?q w1] by (simp only: nf_write_def)
  have nbs: "notebooks w1 = notebooks w"
    using lazy(2,3) by (cases "tmp_isdir w") (simp_all add: emit_def)
  have r: "notebooks w notebook_path = Some nb \<longrightarrow>
         rebuild_notebook eng total_num notebook_path w =
           execute_notebook eng total_num ?q ?q (w1\<lparr>notebooks := (notebooks w1)(?q \<mapsto> ?nb)\<rparr>)"
  proof
    assume "notebooks w notebook_path = Some nb"
    then have "nf_read notebook_path w1 = Inr nb" by (simp add: nf_read_def nbs)
    with g q n show "rebuild_notebook eng total_num notebook_path w =
           execute_notebook eng total_num ?q ?q (w1\<lparr>notebooks := (notebooks w1)(?q \<mapsto> ?nb)\<rparr>)"
      by (simp add: rebuild_notebook_def)
  qed
  have g': "generate_paths notebook_path w = (?q, w1)" using g q by simp
  show ?thesis
    by (intro exI[of _ w1] exI[of _ ?nb] conjI g' lazy refl n r)
qed

theorem kernel_normalized_witness:
  "kernelspec (metadata nb_conda) = Some \<lparr>name = Some ''conda-env-earth-py'',
       display_name = Some ''Python [conda env:earth]'', language = Some ''python''\<rparr> \<and>
   contains ''Python [conda env:earth]'' ''[conda env:'' \<and>
   language_info (metadata nb_conda) = Some \<lparr>version = Some ''3.7.6''\<rparr> \<and>
   basename ''in-class-demos/wk08.ipynb'' = ''wk08.ipynb'' \<and>
   fst (generate_paths ''in-class-demos/wk08.ipynb'' world0) = ''tmp/wk08.ipynb'' \<and>
   (\<exists>w1.
      generate_paths ''in-class-demos/wk08.ipynb'' world0 = (''tmp/wk08.ipynb'', w1) \<and>
      w1 = emit (Makedirs ''./tmp'') (world0\<lparr>tmp_isdir := True\<rparr>) \<and>
      normalize_kernel_name nb_conda ''tmp/wk08.ipynb'' w1 =
        Inr (w1\<lparr>notebooks := (notebooks w1)(''tmp/wk08.ipynb'' \<mapsto>
          nb_conda\<lparr>metadata := (metadata nb_conda)\<lparr>kernelspec := Some
            \<lparr>name = Some ''python3'', display_name = Some ''Python 3'',
             language = Some ''python''\<rparr>\<rparr>\<rparr>)\<rparr>))"
proof -
  let ?ks = "\<lparr>name = Some ''conda-env-earth-py'',
       display_name = Some ''Python [conda env:earth]'', language = Some ''python''\<rparr>"
  let ?li = "\<lparr>version = Some ''3.7.6''\<rparr>"
  let ?p = "''in-class-demos/wk08.ipynb''"
  have h1: "kernelspec (metadata nb_conda) = Some ?ks" by (simp add: nb_conda_def)
  have h2: "display_name ?ks = Some ''Python [conda env:earth]''" by simp
  note h3 = conda_contains
  have h4: "language ?ks = Some ''python''" by simp
  have h5: "language_info (metadata nb_conda) = Some ?li" by (simp add: nb_conda_def)
  have h6: "version ?li = Some ''3.7.6''" by simp
  have h7: "basename ?p \<noteq> []" "basename ?p \<noteq> ''.''" "basename ?p \<noteq> ''..''"
    by (simp_all add: wk08_basename)
  have nt: "\<not> tmp_isdir world0" by (simp add: world0_def)
  have v: "startswith ''3.7.6'' ''3.''" by (simp add: startswith_def)
  from kernel_normalized[OF h1 h2 h3 h4 h5 h6 h7, of world0] obtain w1 nb' where
    g: "generate_paths ?p world0 = (''tmp/'' @ basename ?p, w1)"
    and l: "\<not> tmp_isdir world0 \<longrightarrow> w1 = emit (Makedirs ''./tmp'') (world0\<lparr>tmp_isdir := True\<rparr>)"
    and nb': "nb' = nb_conda\<lparr>metadata := (metadata nb_conda)\<lparr>kernelspec := Some
               (?ks\<lparr>name := Some (if startswith ''3.7.6'' ''3.'' then ''python3'' else ''python2''),
                   display_name := Some (if startswith ''3.7.6'' ''3.'' then ''Python 3'' else ''Python 2'')\<rparr>)\<rparr>\<rparr>"
    and n: "normalize_kernel_name nb_conda (''tmp/'' @ basename ?p) w1 =
        Inr (w1\<lparr>notebooks := (notebooks w1)(''tmp/'' @ basename ?p \<mapsto> nb')\<rparr>)"
    by blast
  from l nt have w1: "w1 = emit (Makedirs ''./tmp'') (world0\<lparr>tmp_isdir := True\<rparr>)" by simp
  have q: "''tmp/'' @ basename ?p = ''tmp/wk08.ipynb''" by (simp add: wk08_basename)
  have nb2: "nb' = nb_conda\<lparr>metadata := (metadata nb_conda)\<lparr>kernelspec := Some
            \<lparr>name = Some ''python3'', display_name = Some ''Python 3'',
             language = Some ''python''\<rparr>\<rparr>\<rparr>"
    unfolding nb' using v by simp
  from g n have "generate_paths ?p world0 = (''tmp/wk08.ipynb'', w1) \<and>
      w1 = emit (Makedirs ''./tmp'') (world0\<lparr>tmp_isdir := True\<rparr>) \<and>
      normalize_kernel_name nb_conda ''tmp/wk08.ipynb'' w1 =
        Inr (w1\<lparr>notebooks := (notebooks w1)(''tmp/wk08.ipynb'' \<mapsto>
          nb_conda\<lparr>metadata := (metadata nb_conda)\<lparr>kernelspec := Some
            \<lparr>name = Some ''python3'', display_name = Some ''Python 3'',
             language = Some ''python''\<rparr>\<rparr>\<rparr>)\<rparr>)"
    unfolding q nb2 using w1 by simp
  then have e: "\<exists>w1. generate_paths ?p world0 = (''tmp/wk08.ipynb'', w1) \<and>
      w1 = emit (Makedirs ''./tmp'') (world0\<lparr>tmp_isdir := True\<rparr>) \<and>
      normalize_kernel_name nb_conda ''tmp/wk08.ipynb'' w1 =
        Inr (w1\<lparr>notebooks := (notebooks w1)(''tmp/wk08.ipynb'' \<mapsto>
          nb_conda\<lparr>metadata := (metadata nb_conda)\<lparr>kernelspec := Some
            \<lparr>name = Some ''python3'', display_name = Some ''Python 3'',
             language = Some ''python''\<rparr>\<rparr>\<rparr>)\<rparr>)" by (rule exI)
  show ?thesis by (intro conjI h1 h3 h5 wk08_basename wk08_staged e)
qed

text \<open>
  C7. One alarm for the whole batch. The script calls \<^verbatim>\<open>signal.alarm(570)\<close> once, before
  the first notebook is attempted, and never again. If the alarm expires while the engine
  runs a notebook, the handler's exception \<^verbatim>\<open>Notebook build timed out.\<close> is raised inside
  that call and the alarm is spent; the loop catches it as it catches every exception of a
  rebuild, records the notebook as failed and goes on; and with no alarm pending the
  later notebooks end as the engine ends them, however long they take.
\<close>

theorem single_alarm:
  assumes "1 < length argv"
  shows "(\<exists>es. trace (snd (run_notebooks eng argv w)) = trace w @ Alarm 570 # es \<and>
            alarms es = [] \<and> attempted es = sort (drop 1 argv)) \<and>
         (\<forall>w0 t p nb i. alarm w0 = Some t \<and> notebooks w0 p = Some nb \<and> t \<le> duration (eng i nb) \<longrightarrow>
            execute_notebook eng i p p w0 =
              (Some (Exception ''Notebook build timed out.''),
               (emit (Execute p) w0)\<lparr>alarm := None\<rparr>)) \<and>
         (\<forall>i p ps v w0 ex w1.
            rebuild_notebook eng i p (emit (Building p) w0) = (Some ex, w1) \<longrightarrow>
            build_loop eng i (p # ps) (v, w0) =
              build_loop eng (Suc i) ps
                (v\<lparr>problem_notebooks := problem_notebooks v @ [p],
                   failed_count := failed_count v + 1\<rparr>, emit (Traceback ex) w1)) \<and>
         (\<forall>i ps v w0. alarm w0 = None \<longrightarrow> alarm (snd (build_loop eng i ps (v, w0))) = None) \<and>
         (\<forall>w0 p nb i. alarm w0 = None \<and> notebooks w0 p = Some nb \<longrightarrow>
            fst (execute_notebook eng i p p w0) =
              (case outcome (eng i nb) of Inl ex \<Rightarrow> Some ex | Inr nb' \<Rightarrow> None))"
proof -
  from run_notebooks_trace[OF assms, of eng w] obtain es where
    "trace (snd (run_notebooks eng argv w)) = trace w @ Alarm 570 # es"
    "attempted es = sort (drop 1 argv)" "alarms es = []" by blast
  then have a: "\<exists>es. trace (snd (run_notebooks eng argv w)) = trace w @ Alarm 570 # es \<and>
            alarms es = [] \<and> attempted es = sort (drop 1 argv)" by blast
  have b: "\<forall>w0 t p nb i. alarm w0 = Some t \<and> notebooks w0 p = Some nb \<and> t \<le> duration (eng i nb) \<longrightarrow>
            execute_notebook eng i p p w0 =
              (Some (Exception ''Notebook build timed out.''),
               (emit (Execute p) w0)\<lparr>alarm := None\<rparr>)"
    using execute_timeout[of _ _ _ _ eng] unfolding handler_def by blast
  have c: "\<forall>i p ps v w0 ex w1.
            rebuild_notebook eng i p (emit (Building p) w0) = (Some ex, w1) \<longrightarrow>
            build_loop eng i (p # ps) (v, w0) =
              build_loop eng (Suc i) ps
                (v\<lparr>problem_notebooks := problem_notebooks v @ [p],
                   failed_count := failed_count v + 1\<rparr>, emit (Traceback ex) w1)"
    by (intro allI impI) (rule build_loop_caught)
  have d: "\<forall>i ps v w0. alarm w0 = None \<longrightarrow> alarm (snd (build_loop eng i ps (v, w0))) = None"
    by (intro allI impI) (rule build_loop_no_alarm)
  have e: "\<forall>w0 p nb i. alarm w0 = None \<and> notebooks w0 p = Some nb \<longrightarrow>
            fst (execute_notebook eng i p p w0) =
              (case outcome (eng i nb) of Inl ex \<Rightarrow> Some ex | Inr nb' \<Rightarrow> None)"
  proof (intro allI impI)
    fix w0 :: world and p nb i assume "alarm w0 = None \<and> notebooks w0 p = Some nb"
    then have "alarm w0 = None" "notebooks w0 p = Some nb" by simp_all
    from execute_unarmed[OF this, of eng i]
    show "fst (execute_notebook eng i p p w0) =
              (case outcome (eng i nb) of Inl ex \<Rightarrow> Some ex | Inr nb' \<Rightarrow> None)" by simp
  qed
  show ?thesis by (intro conjI a b c d e)
qed

theorem single_alarm_witness:
  "1 < length [''run_notebooks.py'', ''b.ipynb'', ''a.ipynb''] \<and>
   (\<exists>es. trace (snd (run_notebooks engine_slow [''run_notebooks.py'', ''b.ipynb'', ''a.ipynb''] world0))
           = trace world0 @ Alarm 570 # es \<and> alarms es = []) \<and>
   trace (snd (run_notebooks engine_slow [''run_notebooks.py'', ''b.ipynb'', ''a.ipynb''] world0)) =
     [Alarm 570, Building ''a.ipynb'', Makedirs ''./tmp'', Execute ''tmp/a.ipynb'',
      Traceback (Exception ''Notebook build timed out.''),
      Building ''b.ipynb'', Execute ''tmp/b.ipynb'', Success ''b.ipynb'', Rmtree ''./tmp''] \<and>
   alarm (snd (run_notebooks engine_slow [''run_notebooks.py'', ''b.ipynb'', ''a.ipynb''] world0)) = None \<and>
   alarm world_armed = Some 570 \<and> notebooks world_armed ''a.ipynb'' = Some nb_conda \<and>
   570 \<le> duration (engine_slow 0 nb_conda) \<and>
   execute_notebook engine_slow 0 ''a.ipynb'' ''a.ipynb'' world_armed =
     (Some (Exception ''Notebook build timed out.''),
      (emit (Execute ''a.ipynb'') world_armed)\<lparr>alarm := None\<rparr>)"
proof -
  let ?argv = "[''run_notebooks.py'', ''b.ipynb'', ''a.ipynb'']"
  have h: "1 < length ?argv" by simp
  have h1: "alarm world_armed = Some 570" by (simp add: world_armed_def)
  have h2: "notebooks world_armed ''a.ipynb'' = Some nb_conda"
    by (simp add: world_armed_def world0_def)
  have h3: "570 \<le> duration (engine_slow 0 nb_conda)" by (simp add: engine_slow_def)
  from single_alarm[OF h, of engine_slow world0]
  have a: "\<exists>es. trace (snd (run_notebooks engine_slow ?argv world0)) = trace world0 @ Alarm 570 # es \<and>
            alarms es = [] \<and> attempted es = sort (drop 1 ?argv)"
    and b: "\<forall>w0 t p nb i. alarm w0 = Some t \<and> notebooks w0 p = Some nb \<and>
              t \<le> duration (engine_slow i nb) \<longrightarrow>
            execute_notebook engine_slow i p p w0 =
              (Some (Exception ''Notebook build timed out.''),
               (emit (Execute p) w0)\<lparr>alarm := None\<rparr>)"
    by blast+
  from a have a': "\<exists>es. trace (snd (run_notebooks engine_slow ?argv world0)) = trace world0 @ Alarm 570 # es \<and>
            alarms es = []" by blast
  from b h1 h2 h3 have b': "execute_notebook engine_slow 0 ''a.ipynb'' ''a.ipynb'' world_armed =
     (Some (Exception ''Notebook build timed out.''),
      (emit (Execute ''a.ipynb'') world_armed)\<lparr>alarm := None\<rparr>)" by blast
  show ?thesis by (intro conjI h a' run_slow_trace run_slow_alarm h1 h2 h3 b')
qed

end
